theory Spec2Isabelle
  imports Main "HOL-Library.Sublist" "HOL-Library.AList" "HOL-Library.Multiset"
begin

section \<open>The world the downloader runs in\<close>

text \<open>
  The downloader talks to the newspaper's site through \<^verbatim>\<open>requests.get\<close>, sleeps
  between some attempts, writes page files into a temporary directory and finally one
  merged document into the download directory. All of this is made explicit: the site is
  a script of replies, one per \<^verbatim>\<open>requests.get\<close> call in the order the calls are made;
  everything observable the program does is appended to a list of events.
\<close>

type_synonym url = string

text \<open>
  What the program reads from a \<^verbatim>\<open>requests.Response\<close>: the status code, the
  \<^verbatim>\<open>Content-Type\<close> header (the empty string when absent, as
  \<^verbatim>\<open>headers.get('Content-Type', '')\<close> gives), the decoded body used by the HTML probes,
  whether \<^verbatim>\<open>int(headers.get('content-length', 0))\<close> raises, the number of bytes the
  streamed body delivers before it ends, whether the stream ends by raising, whether
  those bytes form a document the merge library opens and appends without raising, and
  the number of pages that document has.
\<close>

record response =
  status_code :: nat
  content_type :: string
  body_text :: string
  bad_content_length :: bool
  body_size :: nat
  stream_error :: bool
  body_parses :: bool
  body_pages :: nat

text \<open>
  A call of \<^verbatim>\<open>requests.get\<close> answers with a response, raises an exception caught by
  \<^verbatim>\<open>except Exception\<close> (timeout, connection error), or is cut by the user
  (\<^verbatim>\<open>KeyboardInterrupt\<close>, which \<^verbatim>\<open>except Exception\<close> does not catch).
\<close>

datatype reply = Resp response | RaisesException | RaisesInterrupt

datatype event =
    Request url
  | Sleep nat
  | Skipped string
  | Inserted string
  | Saved string
  | Rmtree

text \<open>
  A page file of the temporary directory: its size in bytes, whether the merge library in
  use opens and appends it without raising (\<^verbatim>\<open>fitz.open\<close> and \<^verbatim>\<open>insert_pdf\<close>, or
  \<^verbatim>\<open>merger.append\<close>), and the number of pages it then adds to the composite document.
\<close>

record pdf_file =
  file_size :: nat
  parses :: bool
  page_count :: nat

record world =
  replies :: "reply list"
  events :: "event list"
  temp_exists :: bool
  temp_files :: "(string \<times> pdf_file) list"
  output_files :: "string list"

text \<open>
  How a Python call ends: it returns a value, leaves through \<^verbatim>\<open>sys.exit(code)\<close>, or
  leaves through \<^verbatim>\<open>KeyboardInterrupt\<close>.
\<close>

datatype 'a outcome = Return 'a | SysExit nat | Interrupt

definition MAX_RETRIES :: nat where
  "MAX_RETRIES = 3"

definition log_event :: "event \<Rightarrow> world \<Rightarrow> world" where
  "log_event e w = w\<lparr>events := events w @ [e]\<rparr>"

definition sleep :: "nat \<Rightarrow> world \<Rightarrow> world" where
  "sleep n w = log_event (Sleep n) w"

text \<open>
  One \<^verbatim>\<open>requests.get\<close>: the next reply of the script is consumed. A site that has
  nothing left to say is unreachable: the call raises.
\<close>

definition requests_get :: "url \<Rightarrow> world \<Rightarrow> reply \<times> world" where
  "requests_get u w =
     (case replies w of
        [] \<Rightarrow> (RaisesException, log_event (Request u) w)
      | r # rs \<Rightarrow> (r, log_event (Request u) (w\<lparr>replies := rs\<rparr>)))"

section \<open>safe\_request\<close>

text \<open>
  \<^verbatim>\<open>
  def safe_request(url, proxies):
      for _ in range(MAX_RETRIES):
          try:
              response = requests.get(url, ...)
              if response.status_code == 200:
                  return response
              if response.status_code == 404:
                  return None
          except Exception as e:
              logger.warning(...)
              time.sleep(1)
      return None
  \<close>
  The first argument of the loop is the number of iterations still to run.
\<close>

fun safe_request_loop :: "nat \<Rightarrow> url \<Rightarrow> world \<Rightarrow> response option outcome \<times> world" where
  "safe_request_loop 0 u w = (Return None, w)"
| "safe_request_loop (Suc n) u w =
     (case requests_get u w of
        (Resp r, w1) \<Rightarrow>
          if status_code r = 200 then (Return (Some r), w1)
          else if status_code r = 404 then (Return None, w1)
          else safe_request_loop n u w1
      | (RaisesException, w1) \<Rightarrow> safe_request_loop n u (sleep 1 w1)
      | (RaisesInterrupt, w1) \<Rightarrow> (Interrupt, w1))"

definition safe_request :: "url \<Rightarrow> world \<Rightarrow> response option outcome \<times> world" where
  "safe_request u w = safe_request_loop MAX_RETRIES u w"

text \<open>The events a call added, and how many of them are requests or pauses.\<close>

definition new_events :: "world \<Rightarrow> world \<Rightarrow> event list" where
  "new_events w w' = drop (length (events w)) (events w')"

fun is_request :: "event \<Rightarrow> bool" where
  "is_request (Request u) = True"
| "is_request e = False"

fun is_sleep :: "event \<Rightarrow> bool" where
  "is_sleep (Sleep n) = True"
| "is_sleep e = False"

definition requests_made :: "world \<Rightarrow> world \<Rightarrow> nat" where
  "requests_made w w' = length (filter is_request (new_events w w'))"

definition sleeps_made :: "world \<Rightarrow> world \<Rightarrow> nat" where
  "sleeps_made w w' = length (filter is_sleep (new_events w w'))"

text \<open>A reply after which \<^verbatim>\<open>safe_request\<close> goes on to its next attempt.\<close>

fun retried :: "reply \<Rightarrow> bool" where
  "retried (Resp r) = (status_code r \<noteq> 200 \<and> status_code r \<noteq> 404)"
| "retried RaisesException = True"
| "retried RaisesInterrupt = False"

definition mk_response :: "nat \<Rightarrow> string \<Rightarrow> string \<Rightarrow> nat \<Rightarrow> response" where
  "mk_response st ct txt sz =
     \<lparr>status_code = st, content_type = ct, body_text = txt,
      bad_content_length = False, body_size = sz, stream_error = False, body_parses = True,
      body_pages = 1\<rparr>"

definition world0 :: "reply list \<Rightarrow> world" where
  "world0 rs = \<lparr>replies = rs, events = [], temp_exists = False, temp_files = [], output_files = []\<rparr>"

text \<open>
  What one attempt of \<^verbatim>\<open>safe_request\<close> that is followed by another leaves in the
  event list: the request, and a pause of one second only when the request raised.
\<close>

definition attempt_events :: "url \<Rightarrow> reply \<Rightarrow> event list" where
  "attempt_events u r = (if r = RaisesException then [Request u, Sleep 1] else [Request u])"

section \<open>Strings\<close>

text \<open>Python's \<^verbatim>\<open>sub in s\<close> on strings.\<close>

fun contains :: "string \<Rightarrow> string \<Rightarrow> bool" where
  "contains [] sub = (sub = [])"
| "contains (c # cs) sub = (prefix sub (c # cs) \<or> contains cs sub)"

text \<open>
  \<^verbatim>\<open>len(re.findall(pat, s))\<close> for a pattern that is a non-empty literal, as
  \<^verbatim>\<open>pageLink\<close> and \<^verbatim>\<open>nbs\<close> are: the matches are found from left to right and do
  not overlap.
\<close>

fun findall_count :: "string \<Rightarrow> string \<Rightarrow> nat" where
  "findall_count pat [] = 0"
| "findall_count pat (c # cs) =
     (if prefix pat (c # cs) then Suc (findall_count pat (drop (length pat - 1) cs))
      else findall_count pat cs)"

text \<open>
  The first match of \<^verbatim>\<open>(/attachement.*?\.pdf)\<close>: the literal head, then as few
  characters as possible, none of them a newline, up to the first \<^verbatim>\<open>.pdf\<close>.
\<close>

fun lazy_until_pdf :: "string \<Rightarrow> string \<Rightarrow> string option" where
  "lazy_until_pdf acc [] = None"
| "lazy_until_pdf acc (c # cs) =
     (if prefix ''.pdf'' (c # cs) then Some (acc @ ''.pdf'')
      else if c = CHR 0x0A then None
      else lazy_until_pdf (acc @ [c]) cs)"

fun first_attachment :: "string \<Rightarrow> string option" where
  "first_attachment [] = None"
| "first_attachment (c # cs) =
     (if prefix ''/attachement'' (c # cs) then
        (case lazy_until_pdf [] (drop 11 cs) of
           Some m \<Rightarrow> Some (''/attachement'' @ m)
         | None \<Rightarrow> first_attachment cs)
      else first_attachment cs)"

definition is_digit :: "char \<Rightarrow> bool" where
  "is_digit c = (c \<in> set ''0123456789'')"

definition digit_val :: "char \<Rightarrow> nat" where
  "digit_val c = of_char c - 48"

definition digits_val :: "string \<Rightarrow> nat" where
  "digits_val s = foldl (\<lambda>a c. 10 * a + digit_val c) 0 s"

definition digit_char :: "nat \<Rightarrow> char" where
  "digit_char n = ''0123456789'' ! (n mod 10)"

text \<open>The decimal digits of a number, as \<^verbatim>\<open>str(n)\<close> writes them.\<close>

fun show_nat :: "nat \<Rightarrow> string" where
  "show_nat n = (if n < 10 then [digit_char n] else show_nat (n div 10) @ [digit_char n])"

declare show_nat.simps [simp del]

text \<open>\<^verbatim>\<open>{n:02d}\<close>, and \<^verbatim>\<open>%Y\<close>, \<^verbatim>\<open>%m\<close>, \<^verbatim>\<open>%d\<close> of strftime: zero-padded to a width.\<close>

definition zero_pad :: "nat \<Rightarrow> nat \<Rightarrow> string" where
  "zero_pad width n = replicate (width - length (show_nat n)) (CHR ''0'') @ show_nat n"

section \<open>Calendar dates\<close>

text \<open>
  A \<^verbatim>\<open>datetime.date\<close>: year, month and day of the proleptic Gregorian calendar, with
  years from 1 to 9999. Python compares dates as the triples (year, month, day).
\<close>

record date =
  year :: nat
  month :: nat
  day :: nat

definition mk_date :: "nat \<Rightarrow> nat \<Rightarrow> nat \<Rightarrow> date" where
  "mk_date y m d = \<lparr>year = y, month = m, day = d\<rparr>"

definition is_leap :: "nat \<Rightarrow> bool" where
  "is_leap y = (y mod 4 = 0 \<and> (y mod 100 \<noteq> 0 \<or> y mod 400 = 0))"

definition days_in_month :: "nat \<Rightarrow> nat \<Rightarrow> nat" where
  "days_in_month y m =
     (if m = 2 then (if is_leap y then 29 else 28)
      else if m = 4 \<or> m = 6 \<or> m = 9 \<or> m = 11 then 30 else 31)"

definition valid_date :: "date \<Rightarrow> bool" where
  "valid_date d = (1 \<le> year d \<and> year d \<le> 9999 \<and> 1 \<le> month d \<and> month d \<le> 12 \<and>
     1 \<le> day d \<and> day d \<le> days_in_month (year d) (month d))"

definition date_less :: "date \<Rightarrow> date \<Rightarrow> bool" where
  "date_less a b = (year a < year b \<or> (year a = year b \<and>
     (month a < month b \<or> (month a = month b \<and> day a < day b))))"

definition date_le :: "date \<Rightarrow> date \<Rightarrow> bool" where
  "date_le a b = (date_less a b \<or> a = b)"

section \<open>Names and addresses of an edition\<close>

text \<open>
  \<^verbatim>\<open>parse_date\<close> gives the date in three formats: \<^verbatim>\<open>%Y-%m/%d\<close>, \<^verbatim>\<open>%Y%m%d\<close>
  and \<^verbatim>\<open>%Y%m/%d\<close>. The model passes the date itself where the program passes the
  first of these strings.
\<close>

definition old_fmt :: "date \<Rightarrow> string" where
  "old_fmt d = zero_pad 4 (year d) @ ''-'' @ zero_pad 2 (month d) @ ''/'' @ zero_pad 2 (day d)"

definition file_fmt :: "date \<Rightarrow> string" where
  "file_fmt d = zero_pad 4 (year d) @ zero_pad 2 (month d) @ zero_pad 2 (day d)"

definition new_fmt :: "date \<Rightarrow> string" where
  "new_fmt d = zero_pad 4 (year d) @ zero_pad 2 (month d) @ ''/'' @ zero_pad 2 (day d)"

definition output_path :: "date \<Rightarrow> string" where
  "output_path d = ''People's.Daily.'' @ file_fmt d @ ''.pdf''"

definition old_cover :: "date \<Rightarrow> url" where
  "old_cover d = ''http://paper.people.com.cn/rmrb/html/'' @ old_fmt d @ ''/nbs.D110000renmrb_01.htm''"

definition new_cover :: "date \<Rightarrow> url" where
  "new_cover d = ''http://paper.people.com.cn/rmrb/pc/layout/'' @ new_fmt d @ ''/node_01.html''"

definition page_filename :: "date \<Rightarrow> nat \<Rightarrow> string" where
  "page_filename d page = ''rmrb'' @ file_fmt d @ zero_pad 2 page @ ''.pdf''"

definition node_url :: "date \<Rightarrow> nat \<Rightarrow> url" where
  "node_url d page =
     ''http://paper.people.com.cn/rmrb/pc/layout/'' @ new_fmt d @ ''/node_'' @ zero_pad 2 page @ ''.html''"

definition attachment_url :: "string \<Rightarrow> url" where
  "attachment_url m = ''http://paper.people.com.cn/rmrb/pc/'' @ m"

definition legacy_pdf_url :: "date \<Rightarrow> nat \<Rightarrow> url" where
  "legacy_pdf_url d page =
     ''http://paper.people.com.cn/rmrb/images/'' @ old_fmt d @ ''/rmrb'' @ file_fmt d @
     zero_pad 2 page @ ''.pdf''"

section \<open>get\_page\_info\<close>

text \<open>
  \<^verbatim>\<open>
  def get_page_info(old_url, new_url, proxies):
      if response := safe_request(new_url, proxies):
          if (pages := len(re.findall(r'pageLink', response.text))) > 0:
              return pages, True
      if response := safe_request(old_url, proxies):
          return len(re.findall(r'nbs', response.text)), False
      logger.error(...)
      sys.exit(1)
  \<close>
  The second component of the result is \<^verbatim>\<open>is_new\<close>: True for the current layout.
\<close>

definition probe_legacy :: "url \<Rightarrow> world \<Rightarrow> (nat \<times> bool) outcome \<times> world" where
  "probe_legacy old_url w =
     (case safe_request old_url w of
        (Return (Some r), w1) \<Rightarrow> (Return (findall_count ''nbs'' (body_text r), False), w1)
      | (Return None, w1) \<Rightarrow> (SysExit 1, w1)
      | (SysExit c, w1) \<Rightarrow> (SysExit c, w1)
      | (Interrupt, w1) \<Rightarrow> (Interrupt, w1))"

definition get_page_info :: "url \<Rightarrow> url \<Rightarrow> world \<Rightarrow> (nat \<times> bool) outcome \<times> world" where
  "get_page_info old_url new_url w =
     (case safe_request new_url w of
        (Return (Some r), w1) \<Rightarrow>
          if findall_count ''pageLink'' (body_text r) > 0
          then (Return (findall_count ''pageLink'' (body_text r), True), w1)
          else probe_legacy old_url w1
      | (Return None, w1) \<Rightarrow> probe_legacy old_url w1
      | (SysExit c, w1) \<Rightarrow> (SysExit c, w1)
      | (Interrupt, w1) \<Rightarrow> (Interrupt, w1))"

section \<open>download\_pdf\<close>

text \<open>
  \<^verbatim>\<open>open(file_path, 'wb')\<close> and the writes: the file is created or replaced. This is
  the effect in a world where the temporary directory exists; without the directory
  \<^verbatim>\<open>open\<close> raises, which \<open>download_pdf_loop\<close> tests before it writes.
\<close>

definition write_temp :: "string \<Rightarrow> pdf_file \<Rightarrow> world \<Rightarrow> world" where
  "write_temp name f w = w\<lparr>temp_files := AList.update name f (temp_files w)\<rparr>"

text \<open>
  \<^verbatim>\<open>
  def download_pdf(url, filename, temp_dir, progress, task_id, proxies):
      for retry in range(MAX_RETRIES):
          try:
              response = requests.get(url, headers=HEADERS, stream=True, ...)
              response.raise_for_status()
              if 'application/pdf' not in response.headers.get('Content-Type', ''):
                  logger.warning(...)
                  return False
              total_size = int(response.headers.get('content-length', 0))
              ...
              with open(file_path, 'wb') as f:
                  for chunk in response.iter_content(...):
                      if chunk: f.write(chunk) ...
              if os.path.getsize(file_path) >= 1024:
                  return True
          except Exception as e:
              logger.warning(...)
              time.sleep(1)
      return False
  \<close>
  \<^verbatim>\<open>raise_for_status\<close> raises for the statuses 400 to 599, before the content type
  is looked at. \<^verbatim>\<open>open\<close> raises when the temporary directory does not exist.
\<close>

fun download_pdf_loop :: "nat \<Rightarrow> url \<Rightarrow> string \<Rightarrow> world \<Rightarrow> bool outcome \<times> world" where
  "download_pdf_loop 0 u filename w = (Return False, w)"
| "download_pdf_loop (Suc n) u filename w =
     (case requests_get u w of
        (Resp r, w1) \<Rightarrow>
          if 400 \<le> status_code r \<and> status_code r < 600
          then download_pdf_loop n u filename (sleep 1 w1)
          else if \<not> contains (content_type r) ''application/pdf'' then (Return False, w1)
          else if bad_content_length r then download_pdf_loop n u filename (sleep 1 w1)
          else if \<not> temp_exists w1 then download_pdf_loop n u filename (sleep 1 w1)
          else if stream_error r
          then download_pdf_loop n u filename
                 (sleep 1 (write_temp filename
                    \<lparr>file_size = body_size r, parses = False, page_count = 0\<rparr> w1))
          else if body_size r \<ge> 1024
          then (Return True,
                write_temp filename
                  \<lparr>file_size = body_size r, parses = body_parses r, page_count = body_pages r\<rparr> w1)
          else download_pdf_loop n u filename
                 (write_temp filename
                    \<lparr>file_size = body_size r, parses = body_parses r, page_count = body_pages r\<rparr>
                    w1)
      | (RaisesException, w1) \<Rightarrow> download_pdf_loop n u filename (sleep 1 w1)
      | (RaisesInterrupt, w1) \<Rightarrow> (Interrupt, w1))"

definition download_pdf :: "url \<Rightarrow> string \<Rightarrow> world \<Rightarrow> bool outcome \<times> world" where
  "download_pdf u filename w = download_pdf_loop MAX_RETRIES u filename w"

section \<open>download\_edition\<close>

text \<open>
  The check at the head of the page loop,
  \<^verbatim>\<open>if main_task and progress and progress.tasks[main_task].finished\<close>: the task
  identifier is absent or a number (and the number 0 is false in Python), the progress
  display is absent or present, and when present its main task is finished or not.
\<close>

definition cancel_requested :: "nat option \<Rightarrow> bool option \<Rightarrow> bool" where
  "cancel_requested main_task progress =
     (case main_task of
        None \<Rightarrow> False
      | Some t \<Rightarrow> t \<noteq> 0 \<and> (case progress of None \<Rightarrow> False | Some finished \<Rightarrow> finished))"

text \<open>
  The page loop \<^verbatim>\<open>for page in range(1, total_pages + 1)\<close>, with the number of pages
  still to visit, the current page and the count of successes. Leaving through
  \<^verbatim>\<open>raise KeyboardInterrupt()\<close> is the outcome \<open>Interrupt\<close>.
\<close>

definition count_download :: "nat \<Rightarrow> bool outcome \<times> world \<Rightarrow> nat outcome \<times> world" where
  "count_download success res =
     (case res of
        (Return ok, w1) \<Rightarrow> (Return (if ok then success + 1 else success), w1)
      | (SysExit c, w1) \<Rightarrow> (SysExit c, w1)
      | (Interrupt, w1) \<Rightarrow> (Interrupt, w1))"

text \<open>One turn of the loop body: the new count of successes.\<close>

definition fetch_page :: "date \<Rightarrow> bool \<Rightarrow> nat \<Rightarrow> nat \<Rightarrow> world \<Rightarrow> nat outcome \<times> world" where
  "fetch_page d is_new page success w =
     (if is_new then
        (case safe_request (node_url d page) w of
           (Return None, w1) \<Rightarrow> (Return success, w1)
         | (Return (Some r), w1) \<Rightarrow>
             (case first_attachment (body_text r) of
                Some m \<Rightarrow> count_download success
                            (download_pdf (attachment_url m) (page_filename d page) w1)
              | None \<Rightarrow> (Return success, w1))
         | (SysExit c, w1) \<Rightarrow> (SysExit c, w1)
         | (Interrupt, w1) \<Rightarrow> (Interrupt, w1))
      else count_download success
             (download_pdf (legacy_pdf_url d page) (page_filename d page) w))"

fun fetch_pages :: "bool \<Rightarrow> date \<Rightarrow> bool \<Rightarrow> nat \<Rightarrow> nat \<Rightarrow> nat \<Rightarrow> world \<Rightarrow> nat outcome \<times> world" where
  "fetch_pages cancel d is_new 0 page success w = (Return success, w)"
| "fetch_pages cancel d is_new (Suc k) page success w =
     (if cancel then (Interrupt, w)
      else case fetch_page d is_new page success w of
          (Return success', w1) \<Rightarrow> fetch_pages cancel d is_new k (Suc page) success' w1
        | (SysExit c, w1) \<Rightarrow> (SysExit c, w1)
        | (Interrupt, w1) \<Rightarrow> (Interrupt, w1))"

text \<open>
  \<^verbatim>\<open>download_edition\<close>: the skip when the output exists, the locator (outside the
  \<^verbatim>\<open>try\<close>), then the page loop inside \<^verbatim>\<open>try\<close>, whose handler turns
  \<^verbatim>\<open>KeyboardInterrupt\<close> into the result False, and the final
  \<^verbatim>\<open>if success < total_pages: return False\<close>, \<^verbatim>\<open>return True\<close>.
\<close>

definition download_edition :: "date \<Rightarrow> bool option \<Rightarrow> nat option \<Rightarrow> world \<Rightarrow> bool outcome \<times> world" where
  "download_edition d progress main_task w =
     (if output_path d \<in> set (output_files w) then (Return True, w)
      else case get_page_info (old_cover d) (new_cover d) w of
          (Return (total_pages, is_new), w1) \<Rightarrow>
            (case fetch_pages (cancel_requested main_task progress) d is_new total_pages 1 0 w1 of
               (Return success, w2) \<Rightarrow> (Return (\<not> success < total_pages), w2)
             | (SysExit c, w2) \<Rightarrow> (SysExit c, w2)
             | (Interrupt, w2) \<Rightarrow> (Return False, w2))
        | (SysExit c, w1) \<Rightarrow> (SysExit c, w1)
        | (Interrupt, w1) \<Rightarrow> (Interrupt, w1))"

section \<open>merge\_pdfs\<close>

text \<open>\<^verbatim>\<open>s.endswith(suf)\<close>, and the slices \<^verbatim>\<open>x[-6:-4]\<close> and \<^verbatim>\<open>x[4:12]\<close>.\<close>

definition endswith :: "string \<Rightarrow> string \<Rightarrow> bool" where
  "endswith s suf = (length suf \<le> length s \<and> drop (length s - length suf) s = suf)"

definition page_slice :: "string \<Rightarrow> string" where
  "page_slice x = drop (length x - 6) (take (length x - 4) x)"

definition date_slice :: "string \<Rightarrow> string" where
  "date_slice x = take 8 (drop 4 x)"

text \<open>
  \<^verbatim>\<open>int(s)\<close> on a string without underscores (an underscore is only legal between two
  digits, so never in the two characters of \<open>page_slice\<close>): white space is stripped
  on both sides, one sign is allowed, at least one digit must follow and nothing else.
  \<open>None\<close> is the \<^verbatim>\<open>ValueError\<close>. A character stands for a code point below 256.
  Among these \<^verbatim>\<open>int\<close> strips the ASCII white space 0x09 to 0x0D and 0x20 and the two
  Latin-1 spaces 0x85 and 0xA0; the separators 0x1C to 0x1F are not stripped and make
  \<^verbatim>\<open>int\<close> raise.
\<close>

definition is_space :: "char \<Rightarrow> bool" where
  "is_space c = (c \<in> set [CHR 0x09, CHR 0x0A, CHR 0x0B, CHR 0x0C, CHR 0x0D, CHR 0x20,
     CHR 0x85, CHR 0xA0])"

definition strip :: "string \<Rightarrow> string" where
  "strip s = rev (dropWhile is_space (rev (dropWhile is_space s)))"

definition py_nat :: "string \<Rightarrow> nat option" where
  "py_nat s = (if s \<noteq> [] \<and> list_all is_digit s then Some (digits_val s) else None)"

definition py_int :: "string \<Rightarrow> int option" where
  "py_int s =
     (case strip s of
        [] \<Rightarrow> None
      | c # cs \<Rightarrow>
          if c = CHR ''+'' then map_option int (py_nat cs)
          else if c = CHR ''-'' then map_option (\<lambda>n. - int n) (py_nat cs)
          else map_option int (py_nat (c # cs)))"

definition page_key :: "string \<Rightarrow> int option" where
  "page_key x = py_int (page_slice x)"

text \<open>The sort key of a file name; it is used only once every key has parsed.\<close>

definition page_number :: "string \<Rightarrow> int" where
  "page_number x = (case page_key x of Some k \<Rightarrow> k | None \<Rightarrow> 0)"

definition pdf_candidates :: "world \<Rightarrow> (string \<times> pdf_file) list" where
  "pdf_candidates w = filter (\<lambda>x. endswith (fst x) ''.pdf'') (temp_files w)"

text \<open>
  \<^verbatim>\<open>sorted([f for f in os.listdir(temp_dir) if f.endswith(".pdf")], key=...)\<close>;
  Python's sort is stable, as \<open>sort_key\<close> is.
\<close>

definition pdf_files :: "world \<Rightarrow> (string \<times> pdf_file) list" where
  "pdf_files w = sort_key (\<lambda>x. page_number (fst x)) (pdf_candidates w)"

definition output_name :: "string \<Rightarrow> string" where
  "output_name x = ''People's.Daily.'' @ date_slice x @ ''.pdf''"

definition save_output :: "string \<Rightarrow> world \<Rightarrow> world" where
  "save_output path w = log_event (Saved path) (w\<lparr>output_files := List.insert path (output_files w)\<rparr>)"

text \<open>
  The loop over the sorted files, the same in both variants of the program: a file under
  1024 bytes is skipped with a warning, a file that opens is appended to the composite
  document (and, in the PyPDF2 variant, to \<^verbatim>\<open>valid_files\<close>), a file that does not open
  ends the merge with the result False (\<open>None\<close> here). Next to \<^verbatim>\<open>valid_files\<close> the
  loop carries the number of pages of the composite document, which the appended files
  add up to (a file that opens may have no page).
\<close>

fun append_files :: "(string \<times> pdf_file) list \<Rightarrow> string list \<Rightarrow> nat \<Rightarrow> world \<Rightarrow>
    (string list \<times> nat) option \<times> world" where
  "append_files [] valid pages w = (Some (valid, pages), w)"
| "append_files (x # rest) valid pages w =
     (if file_size (snd x) < 1024
      then append_files rest valid pages (log_event (Skipped (fst x)) w)
      else if parses (snd x)
      then append_files rest (valid @ [fst x]) (pages + page_count (snd x))
             (log_event (Inserted (fst x)) w)
      else (None, w))"

text \<open>
  The PyMuPDF variant.
  \<^verbatim>\<open>
  def merge_pdfs(temp_dir, output_dir):
      try:
          pdf_files = sorted([f for f in os.listdir(temp_dir) if f.endswith(".pdf")],
                             key=lambda x: int(x[-6:-4]))
          if not pdf_files:
              return False
          doc = fitz.open()
          for filename in pdf_files:
              if os.path.getsize(file_path) < 1024:
                  logger.warning(...); continue
              try:
                  src = fitz.open(file_path); doc.insert_pdf(src); src.close()
              except Exception as e:
                  return False
          output_name = f"People's.Daily.{pdf_files[0][4:12]}.pdf"
          doc.save(output_path, deflate=True, garbage=3)
          return True
      except Exception as e:
          return False
  \<close>
  A missing directory and a key that is no number raise inside the outer \<^verbatim>\<open>try\<close>.
  PyMuPDF's \<^verbatim>\<open>Document.save\<close> raises \<^verbatim>\<open>ValueError\<close> on a document with zero pages,
  which is the case when no appended file added a page, in particular when every file
  was skipped: the outer handler returns False.
\<close>

definition merge_pdfs :: "world \<Rightarrow> bool \<times> world" where
  "merge_pdfs w =
     (if \<not> temp_exists w then (False, w)
      else if list_ex (\<lambda>x. page_key (fst x) = None) (pdf_candidates w) then (False, w)
      else case pdf_files w of
          [] \<Rightarrow> (False, w)
        | first # rest \<Rightarrow>
            (case append_files (first # rest) [] 0 w of
               (None, w1) \<Rightarrow> (False, w1)
             | (Some (valid, pages), w1) \<Rightarrow>
                 if pages = 0 then (False, w1)
                 else (True, save_output (output_name (fst first)) w1)))"

text \<open>
  The PyPDF2 variant differs after the loop:
  \<^verbatim>\<open>
          if len(valid_files) == 0:
              return False
          output_name = f"People's.Daily.{valid_files[0][4:12]}.pdf"
          merger.write(output_path)
          return True
  \<close>
  The number of pages plays no role here: \<^verbatim>\<open>merger.write\<close> writes whatever was
  appended.
\<close>

definition merge_pdfs_pypdf2 :: "world \<Rightarrow> bool \<times> world" where
  "merge_pdfs_pypdf2 w =
     (if \<not> temp_exists w then (False, w)
      else if list_ex (\<lambda>x. page_key (fst x) = None) (pdf_candidates w) then (False, w)
      else case pdf_files w of
          [] \<Rightarrow> (False, w)
        | first # rest \<Rightarrow>
            (case append_files (first # rest) [] 0 w of
               (None, w1) \<Rightarrow> (False, w1)
             | (Some ([], pages), w1) \<Rightarrow> (False, w1)
             | (Some (v # vs, pages), w1) \<Rightarrow> (True, save_output (output_name v) w1)))"

section \<open>validate\_date\_range\<close>

text \<open>
  \<^verbatim>\<open>datetime.datetime.strptime(s, "%Y%m%d").date()\<close> on a string of digits. The format
  reads four digits of year and at most two each of month and day and must consume the
  whole string, so only eight digits parse; the month must be 01 to 12, the day 01 to
  31, and the date must exist (year 0 does not). \<open>None\<close> is the \<^verbatim>\<open>ValueError\<close>.
\<close>

definition strptime_ymd :: "string \<Rightarrow> date option" where
  "strptime_ymd s =
     (if length s = 8 \<and> list_all is_digit s then
        (let d = mk_date (digits_val (take 4 s)) (digits_val (take 2 (drop 4 s)))
                   (digits_val (drop 6 s))
         in if valid_date d then Some d else None)
      else None)"

text \<open>
  \<^verbatim>\<open>current_date + datetime.timedelta(days=1)\<close>: the next day of the calendar;
  \<open>None\<close> is the \<^verbatim>\<open>OverflowError\<close> past 9999-12-31.
\<close>

definition next_day :: "date \<Rightarrow> date option" where
  "next_day c =
     (if day c < days_in_month (year c) (month c) then Some (mk_date (year c) (month c) (day c + 1))
      else if month c < 12 then Some (mk_date (year c) (month c + 1) 1)
      else if year c < 9999 then Some (mk_date (year c + 1) 1 1)
      else None)"

text \<open>
  \<^verbatim>\<open>
  while current_date <= end_date:
      date_list.append(current_date)
      current_date += datetime.timedelta(days=1)
  \<close>
\<close>

function date_loop :: "date \<Rightarrow> date \<Rightarrow> date list \<Rightarrow> date list option" where
  "date_loop current_date end_date date_list =
     (if date_le current_date end_date then
        (case next_day current_date of
           None \<Rightarrow> None
         | Some nxt \<Rightarrow> date_loop nxt end_date (date_list @ [current_date]))
      else Some date_list)"
  by pat_completeness auto
termination
proof (relation "measures [\<lambda>(c, e, l). year e + 1 - year c, \<lambda>(c, e, l). 12 - month c,
    \<lambda>(c, e, l). 31 - day c]", goal_cases)
  case 1
  show ?case by simp
next
  case (2 current_date end_date date_list nxt)
  then show ?case
    by (auto simp: next_day_def mk_date_def date_le_def date_less_def days_in_month_def
        split: if_splits)
qed

declare date_loop.simps [simp del]

text \<open>
  \<^verbatim>\<open>validate_date_range\<close>; every \<^verbatim>\<open>ValueError\<close> and any other exception ends in
  \<^verbatim>\<open>sys.exit(1)\<close>. The first argument is \<^verbatim>\<open>datetime.date.today()\<close>.
\<close>

definition validate_date_range :: "date \<Rightarrow> string \<Rightarrow> date list outcome" where
  "validate_date_range today range_str =
     (let clean_str = filter is_digit range_str in
      if length clean_str \<noteq> 16 then SysExit 1
      else case strptime_ymd (take 8 clean_str) of
          None \<Rightarrow> SysExit 1
        | Some start_date \<Rightarrow>
            (case strptime_ymd (drop 8 clean_str) of
               None \<Rightarrow> SysExit 1
             | Some end_date \<Rightarrow>
                 if date_less end_date start_date then SysExit 1
                 else if date_less today end_date then SysExit 1
                 else if year start_date < 2003 then SysExit 1
                 else (case date_loop start_date end_date [] of
                         None \<Rightarrow> SysExit 1
                       | Some date_list \<Rightarrow> Return date_list)))"

section \<open>main\<close>

text \<open>
  \<^verbatim>\<open>init_environment\<close> creates the two directories when they are missing and unlinks
  every file of the temporary directory; \<^verbatim>\<open>shutil.rmtree(temp_dir, ignore_errors=True)\<close>
  removes the directory with its content.
\<close>

definition init_environment :: "world \<Rightarrow> world" where
  "init_environment w = w\<lparr>temp_exists := True, temp_files := []\<rparr>"

definition rmtree :: "world \<Rightarrow> world" where
  "rmtree w = log_event Rmtree (w\<lparr>temp_exists := False, temp_files := []\<rparr>)"

text \<open>
  The single-date branch of \<^verbatim>\<open>main\<close>, from \<^verbatim>\<open>init_environment()\<close> on, for a date
  that \<^verbatim>\<open>validate_date\<close> accepted. The result is the exit code of the process.
  \<^verbatim>\<open>
      temp_dir, output_dir = init_environment()
      try:
          ...
          else:
              download_success = download_edition(target_date, temp_dir, output_dir, ...)
              if download_success:
                  merge_success = merge_pdfs(temp_dir, output_dir)
                  ...
              shutil.rmtree(temp_dir, ignore_errors=True)
      except KeyboardInterrupt:
          sys.exit(130)
      except Exception as e:
          sys.exit(1)
  \<close>
  The merge function is a parameter, since the two variants of the program differ in it
  only.
\<close>

definition single_date :: "(world \<Rightarrow> bool \<times> world) \<Rightarrow> date \<Rightarrow> world \<Rightarrow> nat \<times> world" where
  "single_date merge d w0 =
     (case download_edition d None None (init_environment w0) of
        (Return download_success, w1) \<Rightarrow>
          (0, rmtree (if download_success then snd (merge w1) else w1))
      | (SysExit c, w1) \<Rightarrow> (c, w1)
      | (Interrupt, w1) \<Rightarrow> (130, w1))"

text \<open>
  One iteration of the batch loop; \<open>finished\<close> tells whether the main task of the
  progress display has reached its total. The main task is the first task of its
  display, so its identifier is 0. The \<^verbatim>\<open>finally\<close> clause runs on every way out.
  \<^verbatim>\<open>
      try:
          current_temp_dir, _ = init_environment()
          download_success = download_edition(target_date, current_temp_dir, output_dir,
                                              progress=main_progress, main_task=main_task, ...)
          if download_success:
              merge_success = merge_pdfs(current_temp_dir, output_dir)
              ...
      except Exception as e:
          logger.error(...)
      finally:
          shutil.rmtree(current_temp_dir, ignore_errors=True)
  \<close>
\<close>

definition batch_day :: "(world \<Rightarrow> bool \<times> world) \<Rightarrow> date \<Rightarrow> bool \<Rightarrow> world \<Rightarrow> unit outcome \<times> world" where
  "batch_day merge d finished w0 =
     (case download_edition d (Some finished) (Some 0) (init_environment w0) of
        (Return download_success, w1) \<Rightarrow>
          (Return (), rmtree (if download_success then snd (merge w1) else w1))
      | (SysExit c, w1) \<Rightarrow> (SysExit c, rmtree w1)
      | (Interrupt, w1) \<Rightarrow> (Interrupt, rmtree w1))"

text \<open>
  The loop \<^verbatim>\<open>for idx, date_obj in enumerate(date_list, 1)\<close>; the main task is advanced
  by one before each date, so it is finished once \<open>idx\<close> reaches the number of days.
\<close>

fun batch_loop :: "(world \<Rightarrow> bool \<times> world) \<Rightarrow> nat \<Rightarrow> nat \<Rightarrow> date list \<Rightarrow> world \<Rightarrow> unit outcome \<times> world" where
  "batch_loop merge total_days idx [] w = (Return (), w)"
| "batch_loop merge total_days idx (d # ds) w =
     (case batch_day merge d (total_days \<le> idx) w of
        (Return u, w1) \<Rightarrow> batch_loop merge total_days (Suc idx) ds w1
      | (SysExit c, w1) \<Rightarrow> (SysExit c, w1)
      | (Interrupt, w1) \<Rightarrow> (Interrupt, w1))"

definition date_range :: "(world \<Rightarrow> bool \<times> world) \<Rightarrow> date \<Rightarrow> string \<Rightarrow> world \<Rightarrow> nat \<times> world" where
  "date_range merge today range_str w0 =
     (case validate_date_range today range_str of
        Return date_list \<Rightarrow>
          (case batch_loop merge (length date_list) 1 date_list (init_environment w0) of
             (Return u, w1) \<Rightarrow> (0, w1)
           | (SysExit c, w1) \<Rightarrow> (c, w1)
           | (Interrupt, w1) \<Rightarrow> (130, w1))
      | SysExit c \<Rightarrow> (c, init_environment w0)
      | Interrupt \<Rightarrow> (130, init_environment w0))"

text \<open>
  The relation between the world before and after a step that only talks to the site and
  writes page files: the download directory is untouched and the new events are requests
  and pauses.
\<close>

definition network_only :: "world \<Rightarrow> world \<Rightarrow> bool" where
  "network_only w w' =
     (output_files w' = output_files w \<and> temp_exists w' = temp_exists w \<and>
      (\<exists>ev. events w' = events w @ ev \<and> list_all (\<lambda>e. is_request e \<or> is_sleep e) ev))"

text \<open>The events of the merge step: a skipped file, an appended file, the saved output.\<close>

fun is_merge_event :: "event \<Rightarrow> bool" where
  "is_merge_event (Skipped x) = True"
| "is_merge_event (Inserted x) = True"
| "is_merge_event (Saved x) = True"
| "is_merge_event e = False"

text \<open>Replies used in the examples.\<close>

abbreviation not_found :: reply where
  "not_found \<equiv> Resp (mk_response 404 [] [] 0)"

abbreviation pdf_page :: reply where
  "pdf_page \<equiv> Resp (mk_response 200 ''application/pdf'' [] 2048)"

abbreviation html_page :: reply where
  "html_page \<equiv> Resp (mk_response 200 ''text/html'' [] 2048)"

abbreviation legacy_cover :: "string \<Rightarrow> reply" where
  "legacy_cover txt \<equiv> Resp (mk_response 200 ''text/html'' txt 0)"

section \<open>Notions used to state the properties of the merge\<close>

text \<open>
  A file the loop of the merge passes: it is under 1024 bytes (and skipped) or it opens.
  A file of at least 1024 bytes is the only kind that is appended.
\<close>

definition passes :: "string \<times> pdf_file \<Rightarrow> bool" where
  "passes x = (file_size (snd x) < 1024 \<or> parses (snd x))"

definition big_enough :: "string \<times> pdf_file \<Rightarrow> bool" where
  "big_enough x = (1024 \<le> file_size (snd x))"

text \<open>A file that is appended and adds at least one page to the composite document.\<close>

definition adds_pages :: "string \<times> pdf_file \<Rightarrow> bool" where
  "adds_pages x = (1024 \<le> file_size (snd x) \<and> 0 < page_count (snd x))"

text \<open>The event the loop logs for a file it passes.\<close>

definition file_event :: "string \<times> pdf_file \<Rightarrow> event" where
  "file_event x = (if file_size (snd x) < 1024 then Skipped (fst x) else Inserted (fst x))"

fun is_file_event :: "event \<Rightarrow> bool" where
  "is_file_event (Skipped x) = True"
| "is_file_event (Inserted x) = True"
| "is_file_event e = False"

fun is_saved :: "event \<Rightarrow> bool" where
  "is_saved (Saved x) = True"
| "is_saved e = False"

fun event_file :: "event \<Rightarrow> string" where
  "event_file (Skipped x) = x"
| "event_file (Inserted x) = x"
| "event_file e = []"

text \<open>The names of the files a merge went through, in the order it did.\<close>

definition processed :: "world \<Rightarrow> world \<Rightarrow> string list" where
  "processed w w' = map event_file (filter is_file_event (new_events w w'))"

text \<open>
  The temporary directory holds page files of the date only: every name in it is the
  name \<^verbatim>\<open>download_edition\<close> gives to some page of the date.
\<close>

definition page_files_of :: "date \<Rightarrow> world \<Rightarrow> bool" where
  "page_files_of d w = (\<forall>n\<in>set (map fst (temp_files w)). \<exists>p. n = page_filename d p)"

text \<open>
  The state of the temporary directory in which the merge succeeds. The directory is
  there, every \<^verbatim>\<open>.pdf\<close> name yields a page number, and every such file of 1024 bytes
  or more opens. Besides, in the PyMuPDF variant at least one such file of that size has
  a page (the composite document must not be empty); in the PyPDF2 variant at least one
  such file has that size (\<^verbatim>\<open>valid_files\<close> must not be empty).
\<close>

definition mergeable :: "world \<Rightarrow> bool" where
  "mergeable w =
     (temp_exists w \<and> \<not> list_ex (\<lambda>x. page_key (fst x) = None) (pdf_candidates w) \<and>
      list_ex adds_pages (pdf_candidates w) \<and> list_all passes (pdf_candidates w))"

definition mergeable_pypdf2 :: "world \<Rightarrow> bool" where
  "mergeable_pypdf2 w =
     (temp_exists w \<and> \<not> list_ex (\<lambda>x. page_key (fst x) = None) (pdf_candidates w) \<and>
      list_ex big_enough (pdf_candidates w) \<and> list_all passes (pdf_candidates w))"

text \<open>Page files used in the examples, and a reply that serves a corrupt document.\<close>

abbreviation good_file :: pdf_file where
  "good_file \<equiv> \<lparr>file_size = 2048, parses = True, page_count = 1\<rparr>"

abbreviation corrupt_file :: pdf_file where
  "corrupt_file \<equiv> \<lparr>file_size = 2048, parses = False, page_count = 1\<rparr>"

abbreviation small_file :: pdf_file where
  "small_file \<equiv> \<lparr>file_size = 100, parses = False, page_count = 0\<rparr>"

abbreviation empty_file :: pdf_file where
  "empty_file \<equiv> \<lparr>file_size = 2048, parses = True, page_count = 0\<rparr>"

abbreviation corrupt_page :: reply where
  "corrupt_page \<equiv> Resp ((mk_response 200 ''application/pdf'' [] 2048)\<lparr>body_parses := False\<rparr>)"

abbreviation directory :: "(string \<times> pdf_file) list \<Rightarrow> world" where
  "directory fs \<equiv>
     \<lparr>replies = [], events = [], temp_exists = True, temp_files = fs, output_files = []\<rparr>"

section \<open>Properties of safe\_request\<close>

lemma safe_request_loop_retried:
  "replies w = pre @ post \<Longrightarrow> list_all retried pre \<Longrightarrow> length pre \<le> n \<Longrightarrow>
   safe_request_loop n u w =
   safe_request_loop (n - length pre) u
     (w\<lparr>replies := post, events := events w @ concat (map (attempt_events u) pre)\<rparr>)"
proof (induction pre arbitrary: n w)
  case Nil
  then have "w\<lparr>replies := post\<rparr> = w" by (cases w) auto
  then show ?case by simp
next
  case (Cons r pre)
  then obtain m where n: "n = Suc m" by (cases n) auto
  from Cons.prems have pre: "list_all retried pre" "length pre \<le> m" and r: "retried r"
    by (auto simp: n)
  define w1 where "w1 = w\<lparr>replies := pre @ post, events := events w @ attempt_events u r\<rparr>"
  have step: "safe_request_loop (Suc m) u w = safe_request_loop m u w1"
    using r Cons.prems(1)
    by (cases r) (auto simp: requests_get_def log_event_def sleep_def attempt_events_def w1_def)
  have "replies w1 = pre @ post" by (simp add: w1_def)
  from Cons.IH [OF this pre]
  have "safe_request_loop m u w1 = safe_request_loop (m - length pre) u
     (w1\<lparr>replies := post, events := events w1 @ concat (map (attempt_events u) pre)\<rparr>)" .
  moreover have "w1\<lparr>replies := post, events := events w1 @ concat (map (attempt_events u) pre)\<rparr>
     = w\<lparr>replies := post, events := events w @ concat (map (attempt_events u) (r # pre))\<rparr>"
    by (simp add: w1_def)
  ultimately show ?case unfolding n step by simp
qed

lemma safe_request_loop_events:
  "safe_request_loop n u w = (res, w') \<Longrightarrow>
   \<exists>ev. events w' = events w @ ev \<and> length (filter is_request ev) \<le> n"
proof (induction n arbitrary: w)
  case 0
  then show ?case by simp
next
  case (Suc n)
  obtain r w1 where g: "requests_get u w = (r, w1)" by (cases "requests_get u w")
  then have e1: "events w1 = events w @ [Request u]"
    by (auto simp: requests_get_def log_event_def split: list.splits)
  show ?case
  proof (cases r)
    case (Resp x)
    show ?thesis
    proof (cases "status_code x = 200 \<or> status_code x = 404")
      case True
      with Suc.prems g Resp have "w' = w1" by (auto split: if_splits)
      with e1 show ?thesis by simp
    next
      case False
      with Suc.prems g Resp have "safe_request_loop n u w1 = (res, w')" by simp
      from Suc.IH [OF this] e1 show ?thesis by auto
    qed
  next
    case RaisesException
    with Suc.prems g have "safe_request_loop n u (sleep 1 w1) = (res, w')" by simp
    from Suc.IH [OF this] e1 show ?thesis by (auto simp: sleep_def log_event_def)
  next
    case RaisesInterrupt
    with Suc.prems g have "w' = w1" by simp
    with e1 show ?thesis by simp
  qed
qed

lemma requests_made_append:
  "events w' = events w @ ev \<Longrightarrow> requests_made w w' = length (filter is_request ev)"
  by (simp add: requests_made_def new_events_def)

lemma sleeps_made_append:
  "events w' = events w @ ev \<Longrightarrow> sleeps_made w w' = length (filter is_sleep ev)"
  by (simp add: sleeps_made_def new_events_def)

lemma safe_request_at_most_three: "requests_made w (snd (safe_request u w)) \<le> 3"
proof -
  obtain res w' where s: "safe_request_loop MAX_RETRIES u w = (res, w')"
    by (cases "safe_request_loop MAX_RETRIES u w")
  from safe_request_loop_events [OF s] obtain ev
    where "events w' = events w @ ev" "length (filter is_request ev) \<le> MAX_RETRIES" by blast
  then show ?thesis
    using s by (simp add: safe_request_def requests_made_append MAX_RETRIES_def)
qed

lemma safe_request_after_retries:
  assumes "replies w = pre @ r # post" "list_all retried pre" "length pre < 3"
  shows "safe_request u w =
     safe_request_loop (Suc (2 - length pre)) u
       (w\<lparr>replies := r # post, events := events w @ concat (map (attempt_events u) pre)\<rparr>)"
proof -
  from assms(3) have "3 - length pre = Suc (2 - length pre)" "length pre \<le> 3" by auto
  with safe_request_loop_retried [OF assms(1,2), of 3 u] show ?thesis
    by (simp add: safe_request_def MAX_RETRIES_def)
qed

lemma safe_request_exhausted:
  assumes "replies w = pre @ post" "list_all retried pre" "length pre = 3"
  shows "safe_request u w =
     (Return None, w\<lparr>replies := post, events := events w @ concat (map (attempt_events u) pre)\<rparr>)"
  using safe_request_loop_retried [OF assms(1,2), of 3 u] assms(3)
  by (simp add: safe_request_def MAX_RETRIES_def)

text \<open>
  C7, as the specification states it: an attempt answered with a status other than 2xx
  and 404 pauses one second before the retry. On the code, three answers of status 500
  give three requests and no pause at all: only the exception handler sleeps.
\<close>

theorem safe_request_status_pause_counterexample:
  "retried (Resp (mk_response 500 [] [] 0)) \<and>
   fst (safe_request ''u'' (world0 (replicate 3 (Resp (mk_response 500 [] [] 0))))) = Return None \<and>
   new_events (world0 (replicate 3 (Resp (mk_response 500 [] [] 0))))
     (snd (safe_request ''u'' (world0 (replicate 3 (Resp (mk_response 500 [] [] 0)))))) =
     [Request ''u'', Request ''u'', Request ''u'']"
  by (simp add: safe_request_def MAX_RETRIES_def numeral_3_eq_3 requests_get_def log_event_def
      world0_def mk_response_def new_events_def)

text \<open>
  C7, amended: \<^verbatim>\<open>safe_request\<close> makes at most 3 requests. After fewer than three
  attempts that were retried (a status other than 200 and 404, or an exception), an answer
  of status 404 returns "not found" and an answer of status 200 returns the response, and
  no further reply is consumed. Three retried attempts return "not found". In each
  case the events are, per retried attempt, the request, followed by a pause of one
  second exactly when the request raised an exception: a retried status is followed by
  the next request with no pause.
\<close>

theorem safe_request_attempts:
  "requests_made w (snd (safe_request u w)) \<le> 3 \<and>
   (\<forall>pre r post.
      replies w = pre @ Resp r # post \<and> list_all retried pre \<and> length pre < 3 \<and>
      status_code r = 404 \<longrightarrow>
      safe_request u w =
        (Return None,
         w\<lparr>replies := post,
           events := events w @ concat (map (attempt_events u) pre) @ [Request u]\<rparr>)) \<and>
   (\<forall>pre r post.
      replies w = pre @ Resp r # post \<and> list_all retried pre \<and> length pre < 3 \<and>
      status_code r = 200 \<longrightarrow>
      safe_request u w =
        (Return (Some r),
         w\<lparr>replies := post,
           events := events w @ concat (map (attempt_events u) pre) @ [Request u]\<rparr>)) \<and>
   (\<forall>pre post.
      replies w = pre @ post \<and> list_all retried pre \<and> length pre = 3 \<longrightarrow>
      safe_request u w =
        (Return None,
         w\<lparr>replies := post, events := events w @ concat (map (attempt_events u) pre)\<rparr>))"
proof (intro conjI allI impI)
  show "requests_made w (snd (safe_request u w)) \<le> 3"
    by (rule safe_request_at_most_three)
next
  fix pre r post
  assume a: "replies w = pre @ Resp r # post \<and> list_all retried pre \<and> length pre < 3 \<and>
      status_code r = 404"
  then have "safe_request u w =
     safe_request_loop (Suc (2 - length pre)) u
       (w\<lparr>replies := Resp r # post, events := events w @ concat (map (attempt_events u) pre)\<rparr>)"
    by (intro safe_request_after_retries) auto
  with a show "safe_request u w =
        (Return None,
         w\<lparr>replies := post,
           events := events w @ concat (map (attempt_events u) pre) @ [Request u]\<rparr>)"
    by (simp add: requests_get_def log_event_def)
next
  fix pre r post
  assume a: "replies w = pre @ Resp r # post \<and> list_all retried pre \<and> length pre < 3 \<and>
      status_code r = 200"
  then have "safe_request u w =
     safe_request_loop (Suc (2 - length pre)) u
       (w\<lparr>replies := Resp r # post, events := events w @ concat (map (attempt_events u) pre)\<rparr>)"
    by (intro safe_request_after_retries) auto
  with a show "safe_request u w =
        (Return (Some r),
         w\<lparr>replies := post,
           events := events w @ concat (map (attempt_events u) pre) @ [Request u]\<rparr>)"
    by (simp add: requests_get_def log_event_def)
next
  fix pre post
  assume "replies w = pre @ post \<and> list_all retried pre \<and> length pre = 3"
  then show "safe_request u w =
        (Return None,
         w\<lparr>replies := post, events := events w @ concat (map (attempt_events u) pre)\<rparr>)"
    by (intro safe_request_exhausted) auto
qed

theorem safe_request_attempts_witness:
  "safe_request ''u''
     (world0 [RaisesException, Resp (mk_response 503 [] [] 0), Resp (mk_response 404 [] [] 0),
        RaisesException]) =
   (Return None,
    (world0 [RaisesException])
      \<lparr>events := [Request ''u'', Sleep 1, Request ''u'', Request ''u'']\<rparr>)"
proof -
  let ?w = "world0 [RaisesException, Resp (mk_response 503 [] [] 0),
    Resp (mk_response 404 [] [] 0), RaisesException]"
  have h: "replies ?w = [RaisesException, Resp (mk_response 503 [] [] 0)] @
      Resp (mk_response 404 [] [] 0) # [RaisesException] \<and>
    list_all retried [RaisesException, Resp (mk_response 503 [] [] 0)] \<and>
    length [RaisesException, Resp (mk_response 503 [] [] 0)] < 3 \<and>
    status_code (mk_response 404 [] [] 0) = 404"
    by (simp add: world0_def mk_response_def)
  from safe_request_attempts [of ?w "''u''", THEN conjunct2, THEN conjunct1, rule_format, OF h]
  show ?thesis
    by (simp add: world0_def attempt_events_def)
qed

section \<open>Properties of the locator\<close>

lemma requests_get_frame:
  "requests_get u w = (r, w1) \<Longrightarrow>
   temp_exists w1 = temp_exists w \<and> temp_files w1 = temp_files w \<and>
   output_files w1 = output_files w \<and> events w1 = events w @ [Request u]"
  by (auto simp: requests_get_def log_event_def split: list.splits)

lemma safe_request_loop_frame:
  "safe_request_loop n u w = (res, w') \<Longrightarrow>
   temp_exists w' = temp_exists w \<and> temp_files w' = temp_files w \<and>
   output_files w' = output_files w"
proof (induction n arbitrary: w)
  case 0
  then show ?case by auto
next
  case (Suc n)
  obtain r w1 where g: "requests_get u w = (r, w1)" by (cases "requests_get u w")
  note f = requests_get_frame [OF g]
  show ?case
  proof (cases r)
    case (Resp x)
    show ?thesis
    proof (cases "status_code x = 200 \<or> status_code x = 404")
      case True
      with Suc.prems g Resp have "w' = w1" by (auto split: if_splits)
      with f show ?thesis by simp
    next
      case False
      with Suc.prems g Resp have "safe_request_loop n u w1 = (res, w')" by simp
      from Suc.IH [OF this] f show ?thesis by simp
    qed
  next
    case RaisesException
    with Suc.prems g have "safe_request_loop n u (sleep 1 w1) = (res, w')" by simp
    from Suc.IH [OF this] f show ?thesis by (simp add: sleep_def log_event_def)
  next
    case RaisesInterrupt
    with Suc.prems g have "w' = w1" by simp
    with f show ?thesis by simp
  qed
qed

lemma safe_request_frame:
  "safe_request u w = (res, w') \<Longrightarrow>
   temp_exists w' = temp_exists w \<and> temp_files w' = temp_files w \<and>
   output_files w' = output_files w"
  unfolding safe_request_def by (rule safe_request_loop_frame)

lemma safe_request_loop_first_event:
  "\<exists>ev. events (snd (safe_request_loop (Suc n) u w)) = events w @ Request u # ev"
proof -
  obtain r w1 where g: "requests_get u w = (r, w1)" by (cases "requests_get u w")
  note f = requests_get_frame [OF g]
  have ext: "\<exists>ev. events (snd (safe_request_loop n u w2)) = events w2 @ ev" for w2
    using safe_request_loop_events [of n u w2] by (cases "safe_request_loop n u w2") auto
  show ?thesis
  proof (cases r)
    case (Resp x)
    then show ?thesis using g f ext [of w1] by auto
  next
    case RaisesException
    then show ?thesis using g f ext [of "sleep 1 w1"] by (auto simp: sleep_def log_event_def)
  next
    case RaisesInterrupt
    then show ?thesis using g f by auto
  qed
qed

lemma safe_request_first_event:
  "\<exists>ev. events (snd (safe_request u w)) = events w @ Request u # ev"
proof -
  have "MAX_RETRIES = Suc 2" by (simp add: MAX_RETRIES_def)
  then show ?thesis
    unfolding safe_request_def using safe_request_loop_first_event [of 2 u w] by simp
qed

lemma probe_legacy_events:
  "\<exists>ev. events (snd (probe_legacy u w)) = events w @ ev"
  using safe_request_loop_events [of MAX_RETRIES u w]
  by (cases "safe_request_loop MAX_RETRIES u w")
     (auto simp: probe_legacy_def safe_request_def split: outcome.splits option.splits)

lemma get_page_info_first_event:
  "\<exists>ev. events (snd (get_page_info old_url new_url w)) = events w @ Request new_url # ev"
proof -
  obtain res w1 where s: "safe_request new_url w = (res, w1)" by (cases "safe_request new_url w")
  from safe_request_first_event [of new_url w] s
  obtain ev where e: "events w1 = events w @ Request new_url # ev" by auto
  from probe_legacy_events [of old_url w1] obtain ev2
    where e2: "events (snd (probe_legacy old_url w1)) = events w1 @ ev2" by blast
  show ?thesis
    using s e e2 by (auto simp: get_page_info_def split: outcome.splits option.splits)
qed

text \<open>
  C5: the locator probes the current-layout cover first (its first request goes there).
  It answers "current layout" only when that probe succeeded with at least one
  \<^verbatim>\<open>pageLink\<close> marker, and then with the number of markers. When the probe found
  nothing or a page without markers, the legacy cover is probed; if that succeeds the
  answer is the number of \<^verbatim>\<open>nbs\<close> markers, zero included, and "legacy layout". In
  particular a 404 on the current cover and a 200 on the legacy cover give the legacy
  count after exactly these two requests. When the legacy probe finds nothing either,
  the locator ends the process with exit code 1.
\<close>

theorem get_page_info_layouts:
  "(\<exists>ev. events (snd (get_page_info old_url new_url w)) = events w @ Request new_url # ev) \<and>
   (\<forall>n w'. get_page_info old_url new_url w = (Return (n, True), w') \<longrightarrow>
      (\<exists>r. safe_request new_url w = (Return (Some r), w') \<and>
           n = findall_count ''pageLink'' (body_text r) \<and> 1 \<le> n)) \<and>
   (\<forall>r w1. safe_request new_url w = (Return (Some r), w1) \<and>
       1 \<le> findall_count ''pageLink'' (body_text r) \<longrightarrow>
       get_page_info old_url new_url w =
         (Return (findall_count ''pageLink'' (body_text r), True), w1)) \<and>
   (\<forall>ro w1 r2 w2.
       safe_request new_url w = (Return ro, w1) \<and>
       (case ro of None \<Rightarrow> True | Some r \<Rightarrow> findall_count ''pageLink'' (body_text r) = 0) \<and>
       safe_request old_url w1 = (Return (Some r2), w2) \<longrightarrow>
       get_page_info old_url new_url w =
         (Return (findall_count ''nbs'' (body_text r2), False), w2)) \<and>
   (\<forall>r1 r2 rest.
       replies w = Resp r1 # Resp r2 # rest \<and> status_code r1 = 404 \<and> status_code r2 = 200 \<longrightarrow>
       get_page_info old_url new_url w =
         (Return (findall_count ''nbs'' (body_text r2), False),
          w\<lparr>replies := rest, events := events w @ [Request new_url, Request old_url]\<rparr>)) \<and>
   (\<forall>ro w1 w2.
       safe_request new_url w = (Return ro, w1) \<and>
       (case ro of None \<Rightarrow> True | Some r \<Rightarrow> findall_count ''pageLink'' (body_text r) = 0) \<and>
       safe_request old_url w1 = (Return None, w2) \<longrightarrow>
       get_page_info old_url new_url w = (SysExit 1, w2))"
proof (intro conjI allI impI)
  show "\<exists>ev. events (snd (get_page_info old_url new_url w)) = events w @ Request new_url # ev"
    by (rule get_page_info_first_event)
next
  fix n w'
  assume "get_page_info old_url new_url w = (Return (n, True), w')"
  then show "\<exists>r. safe_request new_url w = (Return (Some r), w') \<and>
           n = findall_count ''pageLink'' (body_text r) \<and> 1 \<le> n"
    by (auto simp: get_page_info_def probe_legacy_def
        split: prod.splits outcome.splits option.splits if_splits)
next
  fix r w1
  assume "safe_request new_url w = (Return (Some r), w1) \<and>
       1 \<le> findall_count ''pageLink'' (body_text r)"
  then show "get_page_info old_url new_url w =
         (Return (findall_count ''pageLink'' (body_text r), True), w1)"
    by (auto simp: get_page_info_def)
next
  fix ro w1 r2 w2
  assume "safe_request new_url w = (Return ro, w1) \<and>
       (case ro of None \<Rightarrow> True | Some r \<Rightarrow> findall_count ''pageLink'' (body_text r) = 0) \<and>
       safe_request old_url w1 = (Return (Some r2), w2)"
  then show "get_page_info old_url new_url w =
         (Return (findall_count ''nbs'' (body_text r2), False), w2)"
    by (auto simp: get_page_info_def probe_legacy_def split: option.splits)
next
  fix r1 r2 rest
  assume a: "replies w = Resp r1 # Resp r2 # rest \<and> status_code r1 = 404 \<and> status_code r2 = 200"
  then have 1: "safe_request new_url w =
      (Return None, w\<lparr>replies := Resp r2 # rest, events := events w @ [Request new_url]\<rparr>)"
    by (simp add: safe_request_def MAX_RETRIES_def numeral_3_eq_3 requests_get_def log_event_def)
  have 2: "safe_request old_url (w\<lparr>replies := Resp r2 # rest, events := events w @ [Request new_url]\<rparr>) =
      (Return (Some r2), w\<lparr>replies := rest, events := events w @ [Request new_url, Request old_url]\<rparr>)"
    using a by (simp add: safe_request_def MAX_RETRIES_def numeral_3_eq_3 requests_get_def log_event_def)
  show "get_page_info old_url new_url w =
         (Return (findall_count ''nbs'' (body_text r2), False),
          w\<lparr>replies := rest, events := events w @ [Request new_url, Request old_url]\<rparr>)"
    by (simp add: get_page_info_def probe_legacy_def 1 2)
next
  fix ro w1 w2
  assume "safe_request new_url w = (Return ro, w1) \<and>
       (case ro of None \<Rightarrow> True | Some r \<Rightarrow> findall_count ''pageLink'' (body_text r) = 0) \<and>
       safe_request old_url w1 = (Return None, w2)"
  then show "get_page_info old_url new_url w = (SysExit 1, w2)"
    by (auto simp: get_page_info_def probe_legacy_def split: option.splits)
qed

theorem get_page_info_layouts_witness:
  "get_page_info ''old'' ''new''
     (world0 [Resp (mk_response 404 [] [] 0),
        Resp (mk_response 200 ''text/html'' ''nbs a nbs b nbs'' 0)]) =
   (Return (3, False), (world0 [])\<lparr>events := [Request ''new'', Request ''old'']\<rparr>)"
proof -
  let ?w = "world0 [Resp (mk_response 404 [] [] 0),
        Resp (mk_response 200 ''text/html'' ''nbs a nbs b nbs'' 0)]"
  have h: "replies ?w = Resp (mk_response 404 [] [] 0) #
      Resp (mk_response 200 ''text/html'' ''nbs a nbs b nbs'' 0) # [] \<and>
    status_code (mk_response 404 [] [] 0) = 404 \<and>
    status_code (mk_response 200 ''text/html'' ''nbs a nbs b nbs'' 0) = 200"
    by (simp add: world0_def mk_response_def)
  from get_page_info_layouts [of "''old''" "''new''" ?w, THEN conjunct2, THEN conjunct2,
      THEN conjunct2, THEN conjunct2, THEN conjunct1, rule_format, OF h]
  show ?thesis
    by (simp add: world0_def mk_response_def)
qed

section \<open>Properties of the download and of the run of one date\<close>

lemmas run_defs = single_date_def batch_day_def download_edition_def cancel_requested_def
  init_environment_def rmtree_def world0_def mk_response_def
  get_page_info_def probe_legacy_def safe_request_def fetch_page_def count_download_def
  download_pdf_def MAX_RETRIES_def numeral_3_eq_3 numeral_2_eq_2
  requests_get_def log_event_def sleep_def write_temp_def

lemma network_only_refl: "network_only w w"
  by (simp add: network_only_def)

lemma network_only_trans: "network_only w w1 \<Longrightarrow> network_only w1 w2 \<Longrightarrow> network_only w w2"
  by (auto simp: network_only_def)

lemma network_only_requests_get: "requests_get u w = (r, w1) \<Longrightarrow> network_only w w1"
  by (auto simp: requests_get_def log_event_def network_only_def split: list.splits)

lemma network_only_sleep: "network_only w (sleep n w)"
  by (simp add: network_only_def sleep_def log_event_def)

lemma network_only_write_temp: "network_only w (write_temp name f w)"
  by (simp add: network_only_def write_temp_def)

lemma network_only_safe_request_loop:
  "safe_request_loop n u w = (res, w') \<Longrightarrow> network_only w w'"
proof (induction n arbitrary: w)
  case 0
  then show ?case by (auto simp: network_only_refl)
next
  case (Suc n)
  obtain r w1 where g: "requests_get u w = (r, w1)" by (cases "requests_get u w")
  note f = network_only_requests_get [OF g]
  show ?case
  proof (cases r)
    case (Resp x)
    show ?thesis
    proof (cases "status_code x = 200 \<or> status_code x = 404")
      case True
      with Suc.prems g Resp have "w' = w1" by (auto split: if_splits)
      with f show ?thesis by simp
    next
      case False
      with Suc.prems g Resp have "safe_request_loop n u w1 = (res, w')" by simp
      from Suc.IH [OF this] f show ?thesis by (rule network_only_trans [rotated])
    qed
  next
    case RaisesException
    with Suc.prems g have "safe_request_loop n u (sleep 1 w1) = (res, w')" by simp
    from Suc.IH [OF this] have "network_only (sleep 1 w1) w'" .
    with f network_only_sleep [of w1 1] show ?thesis by (blast intro: network_only_trans)
  next
    case RaisesInterrupt
    with Suc.prems g have "w' = w1" by simp
    with f show ?thesis by simp
  qed
qed

lemma network_only_safe_request: "safe_request u w = (res, w') \<Longrightarrow> network_only w w'"
  unfolding safe_request_def by (rule network_only_safe_request_loop)

lemma network_only_download_pdf_loop:
  "download_pdf_loop n u filename w = (res, w') \<Longrightarrow> network_only w w'"
proof (induction n arbitrary: w)
  case 0
  then show ?case by (auto simp: network_only_refl)
next
  case (Suc n)
  obtain r w1 where g: "requests_get u w = (r, w1)" by (cases "requests_get u w")
  note f = network_only_requests_get [OF g]
  have step: "network_only w w2 \<Longrightarrow> download_pdf_loop n u filename w2 = (res, w') \<Longrightarrow>
      network_only w w'" for w2
    using Suc.IH by (blast intro: network_only_trans)
  have s: "network_only w (sleep 1 w1)"
    using f network_only_sleep by (blast intro: network_only_trans)
  have wr: "network_only w (write_temp filename x w1)" for x
    using f network_only_write_temp by (blast intro: network_only_trans)
  have swr: "network_only w (sleep 1 (write_temp filename x w1))" for x
    using wr network_only_sleep by (blast intro: network_only_trans)
  show ?case
  proof (cases r)
    case (Resp x)
    with Suc.prems g f show ?thesis
      by (auto split: if_splits intro: step s wr swr)
  next
    case RaisesException
    with Suc.prems g show ?thesis by (auto intro: step s)
  next
    case RaisesInterrupt
    with Suc.prems g f show ?thesis by simp
  qed
qed

lemma network_only_download_pdf: "download_pdf u filename w = (res, w') \<Longrightarrow> network_only w w'"
  unfolding download_pdf_def by (rule network_only_download_pdf_loop)

lemma network_only_fetch_page:
  "fetch_page d is_new page success w = (res, w') \<Longrightarrow> network_only w w'"
  by (auto simp: fetch_page_def count_download_def
      split: if_splits prod.splits outcome.splits option.splits
      dest!: network_only_safe_request network_only_download_pdf
      intro: network_only_trans)

lemma network_only_fetch_pages:
  "fetch_pages cancel d is_new k page success w = (res, w') \<Longrightarrow> network_only w w'"
proof (induction k arbitrary: page success w)
  case 0
  then show ?case by (auto simp: network_only_refl)
next
  case (Suc k)
  show ?case
  proof (cases cancel)
    case True
    with Suc.prems show ?thesis by (auto simp: network_only_refl)
  next
    case False
    obtain r w1 where g: "fetch_page d is_new page success w = (r, w1)"
      by (cases "fetch_page d is_new page success w")
    note f = network_only_fetch_page [OF g]
    show ?thesis
    proof (cases r)
      case (Return s')
      with Suc.prems g False have "fetch_pages cancel d is_new k (Suc page) s' w1 = (res, w')"
        by simp
      from Suc.IH [OF this] f show ?thesis by (blast intro: network_only_trans)
    next
      case (SysExit c)
      with Suc.prems g False f show ?thesis by simp
    next
      case Interrupt
      with Suc.prems g False f show ?thesis by simp
    qed
  qed
qed

lemma network_only_get_page_info:
  "get_page_info old_url new_url w = (res, w') \<Longrightarrow> network_only w w'"
  by (auto simp: get_page_info_def probe_legacy_def
      split: if_splits prod.splits outcome.splits option.splits
      dest!: network_only_safe_request intro: network_only_trans)

lemma init_environment_get_page_info:
  assumes "get_page_info old_url new_url (init_environment w0) = (res, w1)"
  shows "temp_exists w1" "temp_files w1 = []" "output_files w1 = output_files w0"
  using safe_request_frame assms
  by (auto simp: get_page_info_def probe_legacy_def init_environment_def
      split: if_splits prod.splits outcome.splits option.splits
      dest!: safe_request_frame)

lemma network_only_no_merge:
  "network_only w w' \<Longrightarrow> filter is_merge_event (new_events w w') = []"
proof -
  assume "network_only w w'"
  then obtain ev where ev: "events w' = events w @ ev"
    "list_all (\<lambda>e. is_request e \<or> is_sleep e) ev" by (auto simp: network_only_def)
  have "filter is_merge_event ev = []"
    using ev(2) by (induction ev) (auto elim: is_request.elims is_sleep.elims)
  with ev(1) show ?thesis by (simp add: new_events_def)
qed

lemma new_events_rmtree:
  "network_only w w' \<Longrightarrow>
   filter is_merge_event (new_events (init_environment w) (rmtree w')) = [] \<and>
   filter is_merge_event (new_events w (rmtree w')) = []"
  using network_only_no_merge [of w w']
  by (auto simp: new_events_def rmtree_def log_event_def init_environment_def network_only_def)

lemma merge_pdfs_no_files:
  "temp_files w = [] \<Longrightarrow> merge_pdfs w = (False, w) \<and> merge_pdfs_pypdf2 w = (False, w)"
  by (simp add: merge_pdfs_def merge_pdfs_pypdf2_def pdf_candidates_def pdf_files_def)

lemma page_filename_example:
  "page_filename (mk_date 2024 1 1) 1 = ''rmrb2024010101.pdf''"
  "page_filename (mk_date 2024 1 1) 2 = ''rmrb2024010102.pdf''"
  by (simp_all add: page_filename_def file_fmt_def zero_pad_def mk_date_def show_nat.simps
      digit_char_def)

lemma output_path_example: "output_path (mk_date 2024 1 1) = ''People's.Daily.20240101.pdf''"
  by (simp add: output_path_def file_fmt_def zero_pad_def mk_date_def show_nat.simps
      digit_char_def)

text \<open>
  C3, as the specification states it: after an attempt answered with a content type that
  is not PDF, the remaining attempts of the call are still made. On the code, for an
  answer of status 200, the call returns False after this one request; the reply that
  would have served the PDF on the second attempt is never asked for.
\<close>

theorem download_pdf_non_pdf_counterexample:
  "download_pdf ''u'' ''f'' (world0 [html_page, pdf_page]) =
   (Return False, (world0 [pdf_page])\<lparr>events := [Request ''u'']\<rparr>)"
  by (simp add: run_defs)

text \<open>
  C3, amended: at whatever attempt of \<^verbatim>\<open>download_pdf\<close> it arrives, a response that
  passes the status check (its status is not in 400 to 599) and whose content type does
  not contain \<^verbatim>\<open>application/pdf\<close> ends the whole call with the result False: no pause,
  no file written, and no further attempt is made. The status is checked first: a
  response with a status in 400 to 599 is a failed attempt whatever its content type,
  followed by a pause of one second and the next attempt of the budget.
\<close>

theorem download_pdf_non_pdf_terminal:
  "(replies w = Resp r # rest \<and> \<not> (400 \<le> status_code r \<and> status_code r < 600) \<and>
    \<not> contains (content_type r) ''application/pdf'' \<longrightarrow>
    download_pdf_loop (Suc n) u filename w =
      (Return False, w\<lparr>replies := rest, events := events w @ [Request u]\<rparr>) \<and>
    download_pdf u filename w =
      (Return False, w\<lparr>replies := rest, events := events w @ [Request u]\<rparr>)) \<and>
   (replies w = Resp r # rest \<and> 400 \<le> status_code r \<and> status_code r < 600 \<longrightarrow>
    download_pdf_loop (Suc n) u filename w =
      download_pdf_loop n u filename
        (w\<lparr>replies := rest, events := events w @ [Request u, Sleep 1]\<rparr>))"
  by (simp add: download_pdf_def MAX_RETRIES_def numeral_3_eq_3 requests_get_def log_event_def
      sleep_def)

theorem download_pdf_non_pdf_terminal_witness:
  "download_pdf_loop (Suc 1) ''u'' ''f'' (world0 [html_page, pdf_page]) =
     (Return False, (world0 [pdf_page])\<lparr>events := [Request ''u'']\<rparr>) \<and>
   download_pdf_loop (Suc 1) ''u'' ''f''
     \<lparr>replies = [Resp (mk_response 404 ''text/html'' [] 0), pdf_page], events = [],
      temp_exists = True, temp_files = [], output_files = []\<rparr> =
     (Return True,
      \<lparr>replies = [], events = [Request ''u'', Sleep 1, Request ''u''], temp_exists = True,
       temp_files = [(''f'', \<lparr>file_size = 2048, parses = True, page_count = 1\<rparr>)],
       output_files = []\<rparr>)"
proof
  have h: "replies (world0 [html_page, pdf_page]) = Resp (mk_response 200 ''text/html'' [] 2048) # [pdf_page] \<and>
    \<not> (400 \<le> status_code (mk_response 200 ''text/html'' [] 2048) \<and>
       status_code (mk_response 200 ''text/html'' [] 2048) < 600) \<and>
    \<not> contains (content_type (mk_response 200 ''text/html'' [] 2048)) ''application/pdf''"
    by (simp add: world0_def mk_response_def)
  from download_pdf_non_pdf_terminal [of "world0 [html_page, pdf_page]" _ _ 1 "''u''" "''f''",
      THEN conjunct1, rule_format, OF h, THEN conjunct1]
  show "download_pdf_loop (Suc 1) ''u'' ''f'' (world0 [html_page, pdf_page]) =
     (Return False, (world0 [pdf_page])\<lparr>events := [Request ''u'']\<rparr>)"
    by (simp add: world0_def)
next
  let ?w = "\<lparr>replies = [Resp (mk_response 404 ''text/html'' [] 0), pdf_page], events = [],
      temp_exists = True, temp_files = [], output_files = []\<rparr>"
  have h: "replies ?w = Resp (mk_response 404 ''text/html'' [] 0) # [pdf_page] \<and>
    400 \<le> status_code (mk_response 404 ''text/html'' [] 0) \<and>
    status_code (mk_response 404 ''text/html'' [] 0) < 600"
    by (simp add: mk_response_def)
  from download_pdf_non_pdf_terminal [of ?w _ _ 1 "''u''" "''f''", THEN conjunct2, rule_format,
      OF h]
  show "download_pdf_loop (Suc 1) ''u'' ''f'' ?w =
     (Return True,
      \<lparr>replies = [], events = [Request ''u'', Sleep 1, Request ''u''], temp_exists = True,
       temp_files = [(''f'', \<lparr>file_size = 2048, parses = True, page_count = 1\<rparr>)],
       output_files = []\<rparr>)"
    by (simp add: requests_get_def log_event_def write_temp_def mk_response_def)
qed

text \<open>
  C4: when the output of the date already exists, \<^verbatim>\<open>download_edition\<close> returns True
  and leaves the world as it was, so it makes no request. The run of the date around it
  (single date or one batch iteration, either merge variant) then only cleans the
  temporary directory: its one event is the removal, and the exit code is 0.
\<close>

theorem existing_output_no_network:
  "output_path d \<in> set (output_files w) \<longrightarrow>
   download_edition d progress main_task w = (Return True, w) \<and>
   requests_made w (snd (download_edition d progress main_task w)) = 0 \<and>
   single_date merge_pdfs d w = (0, rmtree (init_environment w)) \<and>
   single_date merge_pdfs_pypdf2 d w = (0, rmtree (init_environment w)) \<and>
   batch_day merge_pdfs d finished w = (Return (), rmtree (init_environment w)) \<and>
   batch_day merge_pdfs_pypdf2 d finished w = (Return (), rmtree (init_environment w)) \<and>
   new_events w (rmtree (init_environment w)) = [Rmtree]"
proof
  assume a: "output_path d \<in> set (output_files w)"
  have 1: "download_edition d p m w = (Return True, w)" for p m
    using a by (simp add: download_edition_def)
  have 2: "download_edition d p m (init_environment w) = (Return True, init_environment w)" for p m
    using a by (simp add: download_edition_def init_environment_def)
  have 3: "merge_pdfs (init_environment w) = (False, init_environment w)"
    "merge_pdfs_pypdf2 (init_environment w) = (False, init_environment w)"
    using merge_pdfs_no_files [of "init_environment w"] by (simp_all add: init_environment_def)
  show "download_edition d progress main_task w = (Return True, w) \<and>
   requests_made w (snd (download_edition d progress main_task w)) = 0 \<and>
   single_date merge_pdfs d w = (0, rmtree (init_environment w)) \<and>
   single_date merge_pdfs_pypdf2 d w = (0, rmtree (init_environment w)) \<and>
   batch_day merge_pdfs d finished w = (Return (), rmtree (init_environment w)) \<and>
   batch_day merge_pdfs_pypdf2 d finished w = (Return (), rmtree (init_environment w)) \<and>
   new_events w (rmtree (init_environment w)) = [Rmtree]"
  proof (intro conjI)
    show "new_events w (rmtree (init_environment w)) = [Rmtree]"
      by (simp add: new_events_def rmtree_def init_environment_def log_event_def)
  qed (simp_all add: 1 2 3 single_date_def batch_day_def requests_made_def new_events_def)
qed

theorem existing_output_no_network_witness:
  "single_date merge_pdfs (mk_date 2024 1 1)
     ((world0 [pdf_page])\<lparr>output_files := [''People's.Daily.20240101.pdf'']\<rparr>) =
   (0, \<lparr>replies = [pdf_page], events = [Rmtree], temp_exists = False, temp_files = [],
        output_files = [''People's.Daily.20240101.pdf'']\<rparr>)"
proof -
  let ?w = "(world0 [pdf_page])\<lparr>output_files := [''People's.Daily.20240101.pdf'']\<rparr>"
  have h: "output_path (mk_date 2024 1 1) \<in> set (output_files ?w)"
    unfolding output_path_example by (simp add: world0_def)
  from existing_output_no_network [of "mk_date 2024 1 1" ?w, rule_format, OF h]
  show ?thesis by (simp add: world0_def rmtree_def init_environment_def log_event_def)
qed

text \<open>
  C6 fails on the single-date branch of \<^verbatim>\<open>main\<close>: its \<^verbatim>\<open>shutil.rmtree\<close> is an
  ordinary statement after the merge, so it is skipped when \<^verbatim>\<open>get_page_info\<close> leaves
  through \<^verbatim>\<open>sys.exit(1)\<close> (both covers answer 404) and when the user interrupts during
  the locator: the process ends with the temporary directory still there. The batch
  iteration removes it in a \<^verbatim>\<open>finally\<close> clause, on every way out.
\<close>

theorem single_date_leaves_temp_dir:
  "single_date merge_pdfs (mk_date 2024 1 1) (world0 [not_found, not_found]) =
     (1, \<lparr>replies = [],
          events = [Request (new_cover (mk_date 2024 1 1)), Request (old_cover (mk_date 2024 1 1))],
          temp_exists = True, temp_files = [], output_files = []\<rparr>) \<and>
   single_date merge_pdfs (mk_date 2024 1 1) (world0 [RaisesInterrupt]) =
     (130, \<lparr>replies = [], events = [Request (new_cover (mk_date 2024 1 1))],
          temp_exists = True, temp_files = [], output_files = []\<rparr>) \<and>
   (\<forall>merge d finished w. \<not> temp_exists (snd (batch_day merge d finished w)))"
proof (intro conjI allI)
  show "single_date merge_pdfs (mk_date 2024 1 1) (world0 [not_found, not_found]) =
     (1, \<lparr>replies = [],
          events = [Request (new_cover (mk_date 2024 1 1)), Request (old_cover (mk_date 2024 1 1))],
          temp_exists = True, temp_files = [], output_files = []\<rparr>)"
    by (simp add: run_defs)
  show "single_date merge_pdfs (mk_date 2024 1 1) (world0 [RaisesInterrupt]) =
     (130, \<lparr>replies = [], events = [Request (new_cover (mk_date 2024 1 1))],
          temp_exists = True, temp_files = [], output_files = []\<rparr>)"
    by (simp add: run_defs)
  fix merge d finished w
  show "\<not> temp_exists (snd (batch_day merge d finished w))"
    by (simp add: batch_day_def rmtree_def log_event_def split: prod.splits outcome.splits)
qed

lemmas merge_defs = merge_pdfs_def merge_pdfs_pypdf2_def pdf_files_def pdf_candidates_def endswith_def
  page_key_def page_number_def page_slice_def py_int_def py_nat_def strip_def is_space_def
  is_digit_def digits_val_def digit_val_def output_name_def date_slice_def save_output_def
  log_event_def

lemma page_filename_Suc:
  "page_filename (mk_date 2024 (Suc 0) (Suc 0)) (Suc 0) = ''rmrb2024010101.pdf''"
  "page_filename (mk_date 2024 (Suc 0) (Suc 0)) (Suc (Suc 0)) = ''rmrb2024010102.pdf''"
  using page_filename_example by (simp_all add: numeral_2_eq_2)

lemma cancel_requested_main_task_0 [simp]:
  "cancel_requested (Some 0) progress = False" "cancel_requested None progress = False"
  by (simp_all add: cancel_requested_def)

text \<open>
  C10: when the locator reports zero pages, the page loop makes no turn, and
  \<^verbatim>\<open>download_edition\<close> returns True in the world the locator left. The merge then finds
  the temporary directory empty and returns False without any effect, in both variants.
  The run of the date ends with exit code 0, the download directory as it was, and no
  skipped, appended or saved file among its events.
\<close>

theorem zero_pages_success_without_output:
  "output_path d \<notin> set (output_files w0) \<and>
   get_page_info (old_cover d) (new_cover d) (init_environment w0) = (Return (0, is_new), w1) \<longrightarrow>
   fetch_pages cancel d is_new 0 1 0 w1 = (Return 0, w1) \<and>
   download_edition d progress main_task (init_environment w0) = (Return True, w1) \<and>
   merge_pdfs w1 = (False, w1) \<and>
   merge_pdfs_pypdf2 w1 = (False, w1) \<and>
   single_date merge_pdfs d w0 = (0, rmtree w1) \<and>
   single_date merge_pdfs_pypdf2 d w0 = (0, rmtree w1) \<and>
   batch_day merge_pdfs d finished w0 = (Return (), rmtree w1) \<and>
   batch_day merge_pdfs_pypdf2 d finished w0 = (Return (), rmtree w1) \<and>
   output_files (rmtree w1) = output_files w0 \<and>
   filter is_merge_event (new_events w0 (rmtree w1)) = []"
proof
  assume a: "output_path d \<notin> set (output_files w0) \<and>
   get_page_info (old_cover d) (new_cover d) (init_environment w0) = (Return (0, is_new), w1)"
  then have g: "get_page_info (old_cover d) (new_cover d) (init_environment w0) =
      (Return (0, is_new), w1)" and o: "output_path d \<notin> set (output_files (init_environment w0))"
    by (simp_all add: init_environment_def)
  note fr = init_environment_get_page_info [OF g]
  have dl: "download_edition d p m (init_environment w0) = (Return True, w1)" for p m
    using o g by (simp add: download_edition_def)
  note mg = merge_pdfs_no_files [OF fr(2)]
  have net: "network_only (init_environment w0) w1"
    using g by (rule network_only_get_page_info)
  have ev: "filter is_merge_event (new_events w0 (rmtree w1)) = []"
    using new_events_rmtree [OF net] by (simp add: new_events_def init_environment_def)
  have out: "output_files (rmtree w1) = output_files w0"
    using fr(3) by (simp add: rmtree_def log_event_def)
  show "fetch_pages cancel d is_new 0 1 0 w1 = (Return 0, w1) \<and>
   download_edition d progress main_task (init_environment w0) = (Return True, w1) \<and>
   merge_pdfs w1 = (False, w1) \<and>
   merge_pdfs_pypdf2 w1 = (False, w1) \<and>
   single_date merge_pdfs d w0 = (0, rmtree w1) \<and>
   single_date merge_pdfs_pypdf2 d w0 = (0, rmtree w1) \<and>
   batch_day merge_pdfs d finished w0 = (Return (), rmtree w1) \<and>
   batch_day merge_pdfs_pypdf2 d finished w0 = (Return (), rmtree w1) \<and>
   output_files (rmtree w1) = output_files w0 \<and>
   filter is_merge_event (new_events w0 (rmtree w1)) = []"
    by (simp add: dl mg ev out single_date_def batch_day_def)
qed

theorem zero_pages_success_without_output_witness:
  "single_date merge_pdfs (mk_date 2024 1 1) (world0 [not_found, legacy_cover ''no marker'']) =
   (0, \<lparr>replies = [],
        events = [Request (new_cover (mk_date 2024 1 1)), Request (old_cover (mk_date 2024 1 1)),
          Rmtree],
        temp_exists = False, temp_files = [], output_files = []\<rparr>)"
proof -
  let ?w0 = "world0 [not_found, legacy_cover ''no marker'']"
  let ?w1 = "\<lparr>replies = [],
        events = [Request (new_cover (mk_date 2024 1 1)), Request (old_cover (mk_date 2024 1 1))],
        temp_exists = True, temp_files = [], output_files = []\<rparr>"
  have h: "output_path (mk_date 2024 1 1) \<notin> set (output_files ?w0) \<and>
    get_page_info (old_cover (mk_date 2024 1 1)) (new_cover (mk_date 2024 1 1))
      (init_environment ?w0) = (Return (0, False), ?w1)"
    by (simp add: run_defs)
  from zero_pages_success_without_output [of "mk_date 2024 1 1" ?w0 False ?w1, rule_format, OF h]
  show ?thesis by (simp add: rmtree_def log_event_def)
qed

text \<open>
  C1, as the specification states it: a partial download does not suppress the merge.
  On the code, an edition of two pages of which the first is downloaded (a valid file of
  2048 bytes) and the second fails three times makes \<^verbatim>\<open>download_edition\<close> return
  False, and \<^verbatim>\<open>main\<close> then does not call \<^verbatim>\<open>merge_pdfs\<close>: no file is appended, nothing
  is saved, although the merge of the directory the download left would have succeeded.
\<close>

theorem partial_download_counterexample:
  "download_edition (mk_date 2024 1 1) None None
     (init_environment (world0 [not_found, legacy_cover ''nbs nbs'', pdf_page,
        RaisesException, RaisesException, RaisesException])) =
   (Return False,
    \<lparr>replies = [],
     events = [Request (new_cover (mk_date 2024 1 1)), Request (old_cover (mk_date 2024 1 1)),
       Request (legacy_pdf_url (mk_date 2024 1 1) 1),
       Request (legacy_pdf_url (mk_date 2024 1 1) 2), Sleep 1,
       Request (legacy_pdf_url (mk_date 2024 1 1) 2), Sleep 1,
       Request (legacy_pdf_url (mk_date 2024 1 1) 2), Sleep 1],
     temp_exists = True,
     temp_files = [(''rmrb2024010101.pdf'', \<lparr>file_size = 2048, parses = True, page_count = 1\<rparr>)],
     output_files = []\<rparr>) \<and>
   fst (merge_pdfs
     \<lparr>replies = [], events = [], temp_exists = True,
      temp_files = [(''rmrb2024010101.pdf'', \<lparr>file_size = 2048, parses = True, page_count = 1\<rparr>)],
      output_files = []\<rparr>) \<and>
   single_date merge_pdfs (mk_date 2024 1 1)
     (world0 [not_found, legacy_cover ''nbs nbs'', pdf_page,
        RaisesException, RaisesException, RaisesException]) =
   (0,
    \<lparr>replies = [],
     events = [Request (new_cover (mk_date 2024 1 1)), Request (old_cover (mk_date 2024 1 1)),
       Request (legacy_pdf_url (mk_date 2024 1 1) 1),
       Request (legacy_pdf_url (mk_date 2024 1 1) 2), Sleep 1,
       Request (legacy_pdf_url (mk_date 2024 1 1) 2), Sleep 1,
       Request (legacy_pdf_url (mk_date 2024 1 1) 2), Sleep 1, Rmtree],
     temp_exists = False, temp_files = [], output_files = []\<rparr>)"
proof (intro conjI)
  show "fst (merge_pdfs
     \<lparr>replies = [], events = [], temp_exists = True,
      temp_files = [(''rmrb2024010101.pdf'', \<lparr>file_size = 2048, parses = True, page_count = 1\<rparr>)],
      output_files = []\<rparr>)"
    by (simp add: merge_defs)
qed (simp_all add: run_defs page_filename_Suc)

text \<open>
  C1, amended: when the page loop of an edition ends with fewer successful pages than
  the detected page count, \<^verbatim>\<open>download_edition\<close> returns False (after a warning), and
  \<^verbatim>\<open>main\<close> skips the merge for that date, in single-date mode and in a batch
  iteration alike: whatever the merge function, the run ends in the world the download
  left, with the temporary directory removed, the download directory unchanged and no
  file skipped, appended or saved. The date is not fatal: the exit code is 0 and the batch
  goes on.
\<close>

theorem partial_download_skips_merge:
  "output_path d \<notin> set (output_files w0) \<and>
   get_page_info (old_cover d) (new_cover d) (init_environment w0) = (Return (n, is_new), w1) \<and>
   fetch_pages False d is_new n 1 0 w1 = (Return success, w2) \<and> success < n \<longrightarrow>
   download_edition d None None (init_environment w0) = (Return False, w2) \<and>
   download_edition d (Some finished) (Some 0) (init_environment w0) = (Return False, w2) \<and>
   single_date merge d w0 = (0, rmtree w2) \<and>
   batch_day merge d finished w0 = (Return (), rmtree w2) \<and>
   output_files (rmtree w2) = output_files w0 \<and>
   filter is_merge_event (new_events w0 (rmtree w2)) = []"
proof
  assume a: "output_path d \<notin> set (output_files w0) \<and>
   get_page_info (old_cover d) (new_cover d) (init_environment w0) = (Return (n, is_new), w1) \<and>
   fetch_pages False d is_new n 1 0 w1 = (Return success, w2) \<and> success < n"
  then have g: "get_page_info (old_cover d) (new_cover d) (init_environment w0) =
      (Return (n, is_new), w1)"
    and o: "output_path d \<notin> set (output_files (init_environment w0))"
    and f: "fetch_pages False d is_new n 1 0 w1 = (Return success, w2)" and l: "success < n"
    by (simp_all add: init_environment_def)
  have dl: "download_edition d None None (init_environment w0) = (Return False, w2)"
    "download_edition d (Some finished) (Some 0) (init_environment w0) = (Return False, w2)"
    using o g f l by (simp_all add: download_edition_def)
  have net: "network_only (init_environment w0) w2"
    using network_only_get_page_info [OF g] network_only_fetch_pages [OF f]
    by (rule network_only_trans)
  have ev: "filter is_merge_event (new_events w0 (rmtree w2)) = []"
    using new_events_rmtree [OF net] by (simp add: new_events_def init_environment_def)
  have out: "output_files (rmtree w2) = output_files w0"
    using net by (simp add: rmtree_def log_event_def network_only_def init_environment_def)
  show "download_edition d None None (init_environment w0) = (Return False, w2) \<and>
   download_edition d (Some finished) (Some 0) (init_environment w0) = (Return False, w2) \<and>
   single_date merge d w0 = (0, rmtree w2) \<and>
   batch_day merge d finished w0 = (Return (), rmtree w2) \<and>
   output_files (rmtree w2) = output_files w0 \<and>
   filter is_merge_event (new_events w0 (rmtree w2)) = []"
    by (simp add: dl ev out single_date_def batch_day_def)
qed

theorem partial_download_skips_merge_witness:
  "batch_day merge_pdfs (mk_date 2024 1 1) False
     (world0 [not_found, legacy_cover ''nbs nbs'', pdf_page,
        RaisesException, RaisesException, RaisesException]) =
   (Return (),
    \<lparr>replies = [],
     events = [Request (new_cover (mk_date 2024 1 1)), Request (old_cover (mk_date 2024 1 1)),
       Request (legacy_pdf_url (mk_date 2024 1 1) 1),
       Request (legacy_pdf_url (mk_date 2024 1 1) 2), Sleep 1,
       Request (legacy_pdf_url (mk_date 2024 1 1) 2), Sleep 1,
       Request (legacy_pdf_url (mk_date 2024 1 1) 2), Sleep 1, Rmtree],
     temp_exists = False, temp_files = [], output_files = []\<rparr>)"
proof -
  let ?w0 = "world0 [not_found, legacy_cover ''nbs nbs'', pdf_page,
        RaisesException, RaisesException, RaisesException]"
  let ?w1 = "\<lparr>replies = [pdf_page, RaisesException, RaisesException, RaisesException],
        events = [Request (new_cover (mk_date 2024 1 1)), Request (old_cover (mk_date 2024 1 1))],
        temp_exists = True, temp_files = [], output_files = []\<rparr>"
  let ?w2 = "\<lparr>replies = [],
     events = [Request (new_cover (mk_date 2024 1 1)), Request (old_cover (mk_date 2024 1 1)),
       Request (legacy_pdf_url (mk_date 2024 1 1) 1),
       Request (legacy_pdf_url (mk_date 2024 1 1) 2), Sleep 1,
       Request (legacy_pdf_url (mk_date 2024 1 1) 2), Sleep 1,
       Request (legacy_pdf_url (mk_date 2024 1 1) 2), Sleep 1],
     temp_exists = True,
     temp_files = [(''rmrb2024010101.pdf'', \<lparr>file_size = 2048, parses = True, page_count = 1\<rparr>)],
     output_files = []\<rparr>"
  have h: "output_path (mk_date 2024 1 1) \<notin> set (output_files ?w0) \<and>
    get_page_info (old_cover (mk_date 2024 1 1)) (new_cover (mk_date 2024 1 1))
      (init_environment ?w0) = (Return (2, False), ?w1) \<and>
    fetch_pages False (mk_date 2024 1 1) False 2 1 0 ?w1 = (Return 1, ?w2) \<and> (1::nat) < 2"
    by (simp add: run_defs page_filename_Suc)
  from partial_download_skips_merge [of "mk_date 2024 1 1" ?w0 2 False ?w1 1 ?w2 False merge_pdfs,
      rule_format, OF h]
  show ?thesis by (simp add: rmtree_def log_event_def)
qed

section \<open>Properties of the merge\<close>

lemma append_files_passes:
  "list_all passes xs \<Longrightarrow>
   append_files xs valid pages w =
     (Some (valid @ map fst (filter big_enough xs),
            pages + sum_list (map (\<lambda>x. page_count (snd x)) (filter big_enough xs))),
      w\<lparr>events := events w @ map file_event xs\<rparr>)"
proof (induction xs arbitrary: valid pages w)
  case Nil
  show ?case by simp
next
  case (Cons x xs)
  then have p: "list_all passes xs" and x: "passes x" by simp_all
  show ?case
  proof (cases "file_size (snd x) < 1024")
    case True
    then show ?thesis
      using Cons.IH [OF p, of valid pages "log_event (Skipped (fst x)) w"]
      by (simp add: big_enough_def file_event_def log_event_def)
  next
    case False
    with x have "parses (snd x)" by (simp add: passes_def)
    with False show ?thesis
      using Cons.IH [OF p, of "valid @ [fst x]" "pages + page_count (snd x)"
          "log_event (Inserted (fst x)) w"]
      by (simp add: big_enough_def file_event_def log_event_def)
  qed
qed

lemma append_files_stops:
  "\<not> list_all passes xs \<Longrightarrow>
   append_files xs valid pages w =
     (None, w\<lparr>events := events w @ map file_event (takeWhile passes xs)\<rparr>)"
proof (induction xs arbitrary: valid pages w)
  case Nil
  then show ?case by simp
next
  case (Cons x xs)
  show ?case
  proof (cases "passes x")
    case False
    then show ?thesis by (simp add: passes_def)
  next
    case True
    with Cons.prems have p: "\<not> list_all passes xs" by simp
    show ?thesis
    proof (cases "file_size (snd x) < 1024")
      case small: True
      then show ?thesis
        using Cons.IH [OF p, of valid pages "log_event (Skipped (fst x)) w"] True
        by (simp add: file_event_def log_event_def)
    next
      case False
      with True have "parses (snd x)" by (simp add: passes_def)
      with False show ?thesis
        using Cons.IH [OF p, of "valid @ [fst x]" "pages + page_count (snd x)"
            "log_event (Inserted (fst x)) w"] True
        by (simp add: file_event_def log_event_def)
    qed
  qed
qed

lemma no_pages_iff:
  "(sum_list (map (\<lambda>x. page_count (snd x)) (filter big_enough xs)) = 0) =
   (\<not> list_ex adds_pages xs)"
  by (induction xs) (auto simp: adds_pages_def big_enough_def)

lemma pdf_files_props:
  "set (pdf_files w) = set (pdf_candidates w)"
  "list_all P (pdf_files w) = list_all P (pdf_candidates w)"
  "list_ex P (pdf_files w) = list_ex P (pdf_candidates w)"
  "(pdf_files w = []) = (pdf_candidates w = [])"
  "sorted (map (\<lambda>x. page_number (fst x)) (pdf_files w))"
proof -
  show s: "set (pdf_files w) = set (pdf_candidates w)" by (simp add: pdf_files_def)
  show "list_all P (pdf_files w) = list_all P (pdf_candidates w)"
    by (simp add: list_all_iff s)
  show "list_ex P (pdf_files w) = list_ex P (pdf_candidates w)"
    by (simp add: list_ex_iff s)
  show "(pdf_files w = []) = (pdf_candidates w = [])"
    using s by (metis set_empty)
  show "sorted (map (\<lambda>x. page_number (fst x)) (pdf_files w))"
    by (simp add: pdf_files_def)
qed

lemma merge_pdfs_unfold:
  "merge_pdfs w =
     (if \<not> temp_exists w \<or> list_ex (\<lambda>x. page_key (fst x) = None) (pdf_candidates w)
      then (False, w)
      else if pdf_files w = [] then (False, w)
      else case append_files (pdf_files w) [] 0 w of
          (None, w1) \<Rightarrow> (False, w1)
        | (Some (valid, pages), w1) \<Rightarrow>
            if pages = 0 then (False, w1)
            else (True, save_output (output_name (fst (hd (pdf_files w)))) w1))"
proof (cases "pdf_files w")
  case Nil
  then show ?thesis by (simp add: merge_pdfs_def)
next
  case (Cons a list)
  obtain r w1 where ap: "append_files (a # list) [] 0 w = (r, w1)"
    by (cases "append_files (a # list) [] 0 w")
  show ?thesis
    by (cases r)
      (simp_all add: merge_pdfs_def Cons ap del: append_files.simps split: prod.splits)
qed

lemma merge_pdfs_pypdf2_unfold:
  "merge_pdfs_pypdf2 w =
     (if \<not> temp_exists w \<or> list_ex (\<lambda>x. page_key (fst x) = None) (pdf_candidates w)
      then (False, w)
      else if pdf_files w = [] then (False, w)
      else case append_files (pdf_files w) [] 0 w of
          (None, w1) \<Rightarrow> (False, w1)
        | (Some (valid, pages), w1) \<Rightarrow>
            if valid = [] then (False, w1)
            else (True, save_output (output_name (hd valid)) w1))"
proof (cases "pdf_files w")
  case Nil
  then show ?thesis by (simp add: merge_pdfs_pypdf2_def)
next
  case (Cons a list)
  obtain r w1 where ap: "append_files (a # list) [] 0 w = (r, w1)"
    by (cases "append_files (a # list) [] 0 w")
  show ?thesis
    by (cases r)
      (simp_all add: merge_pdfs_pypdf2_def Cons ap del: append_files.simps
        split: prod.splits list.splits)
qed

lemma mergeable_cases:
  assumes "temp_exists w" "\<not> list_ex (\<lambda>x. page_key (fst x) = None) (pdf_candidates w)"
  shows "mergeable w =
     (list_all passes (pdf_files w) \<and>
      sum_list (map (\<lambda>x. page_count (snd x)) (filter big_enough (pdf_files w))) \<noteq> 0)"
    "mergeable_pypdf2 w =
     (list_all passes (pdf_files w) \<and> filter big_enough (pdf_files w) \<noteq> [])"
proof -
  have 1: "(sum_list (map (\<lambda>x. page_count (snd x)) (filter big_enough (pdf_files w))) \<noteq> 0) =
      list_ex adds_pages (pdf_candidates w)"
    using no_pages_iff [of "pdf_files w"] by (simp add: pdf_files_props(3))
  have 2: "(filter big_enough (pdf_files w) \<noteq> []) = list_ex big_enough (pdf_candidates w)"
    by (simp add: filter_empty_conv list_ex_iff pdf_files_props(1))
  show "mergeable w =
     (list_all passes (pdf_files w) \<and>
      sum_list (map (\<lambda>x. page_count (snd x)) (filter big_enough (pdf_files w))) \<noteq> 0)"
    unfolding 1 using assms by (auto simp: mergeable_def pdf_files_props(2))
  show "mergeable_pypdf2 w =
     (list_all passes (pdf_files w) \<and> filter big_enough (pdf_files w) \<noteq> [])"
    unfolding 2 using assms by (auto simp: mergeable_pypdf2_def pdf_files_props(2))
qed

text \<open>What the merge does, in one equation per variant.\<close>

lemma merge_pdfs_eq:
  "merge_pdfs w =
     (if \<not> temp_exists w \<or> list_ex (\<lambda>x. page_key (fst x) = None) (pdf_candidates w)
      then (False, w)
      else if mergeable w
      then (True, save_output (output_name (fst (hd (pdf_files w))))
                    (w\<lparr>events := events w @ map file_event (pdf_files w)\<rparr>))
      else (False, w\<lparr>events := events w @ map file_event (takeWhile passes (pdf_files w))\<rparr>))"
proof (cases "\<not> temp_exists w \<or> list_ex (\<lambda>x. page_key (fst x) = None) (pdf_candidates w)")
  case True
  then show ?thesis by (simp add: merge_pdfs_unfold)
next
  case False
  then have m: "mergeable w =
     (list_all passes (pdf_files w) \<and>
      sum_list (map (\<lambda>x. page_count (snd x)) (filter big_enough (pdf_files w))) \<noteq> 0)"
    by (intro mergeable_cases) auto
  show ?thesis
  proof (cases "list_all passes (pdf_files w)")
    case all: True
    then have tw: "takeWhile passes (pdf_files w) = pdf_files w"
      by (simp add: takeWhile_eq_all_conv list_all_iff)
    show ?thesis
      unfolding merge_pdfs_unfold [of w] append_files_passes [OF all] m tw
      using False all by auto
  next
    case stop: False
    show ?thesis
      unfolding merge_pdfs_unfold [of w] append_files_stops [OF stop] m
      using False stop by auto
  qed
qed

lemma merge_pdfs_pypdf2_eq:
  "merge_pdfs_pypdf2 w =
     (if \<not> temp_exists w \<or> list_ex (\<lambda>x. page_key (fst x) = None) (pdf_candidates w)
      then (False, w)
      else if mergeable_pypdf2 w
      then (True, save_output (output_name (fst (hd (filter big_enough (pdf_files w)))))
                    (w\<lparr>events := events w @ map file_event (pdf_files w)\<rparr>))
      else (False, w\<lparr>events := events w @ map file_event (takeWhile passes (pdf_files w))\<rparr>))"
proof (cases "\<not> temp_exists w \<or> list_ex (\<lambda>x. page_key (fst x) = None) (pdf_candidates w)")
  case True
  then show ?thesis by (simp add: merge_pdfs_pypdf2_unfold)
next
  case False
  then have m: "mergeable_pypdf2 w =
     (list_all passes (pdf_files w) \<and> filter big_enough (pdf_files w) \<noteq> [])"
    by (intro mergeable_cases) auto
  show ?thesis
  proof (cases "list_all passes (pdf_files w)")
    case all: True
    then have tw: "takeWhile passes (pdf_files w) = pdf_files w"
      by (simp add: takeWhile_eq_all_conv list_all_iff)
    show ?thesis
      unfolding merge_pdfs_pypdf2_unfold [of w] append_files_passes [OF all] m tw
      using False all by (auto simp: hd_map)
  next
    case stop: False
    show ?thesis
      unfolding merge_pdfs_pypdf2_unfold [of w] append_files_stops [OF stop] m
      using False stop by auto
  qed
qed

lemma file_events_of_files:
  "filter is_file_event (map file_event xs) = map file_event xs"
  "map event_file (map file_event xs) = map fst xs"
  "filter is_saved (map file_event xs) = []"
  by (induction xs) (auto simp: file_event_def)

lemma sorted_map_takeWhile: "sorted (map f xs) \<Longrightarrow> sorted (map f (takeWhile P xs))"
  by (induction xs) (auto dest: set_takeWhileD)

lemma new_events_merge:
  "new_events w (w\<lparr>events := events w @ evs\<rparr>) = evs"
  "new_events w (save_output p (w\<lparr>events := events w @ evs\<rparr>)) = evs @ [Saved p]"
  "new_events w w = []"
  by (simp_all add: new_events_def save_output_def log_event_def)

lemma merge_pdfs_file_events:
  "filter is_file_event (new_events w (snd (merge_pdfs w))) =
     (if temp_exists w \<and> \<not> list_ex (\<lambda>x. page_key (fst x) = None) (pdf_candidates w)
      then map file_event (takeWhile passes (pdf_files w)) else [])"
proof (cases "mergeable w")
  case True
  then have tw: "takeWhile passes (pdf_files w) = pdf_files w"
    by (simp add: mergeable_def takeWhile_eq_all_conv list_all_iff pdf_files_props(1))
  from True have "temp_exists w \<and> \<not> list_ex (\<lambda>x. page_key (fst x) = None) (pdf_candidates w)"
    by (simp add: mergeable_def)
  with True show ?thesis
    by (simp add: merge_pdfs_eq new_events_merge file_events_of_files tw
        del: takeWhile_eq_all_conv)
next
  case False
  then show ?thesis
    by (simp add: merge_pdfs_eq new_events_merge file_events_of_files)
qed

lemma merge_pdfs_pypdf2_file_events:
  "filter is_file_event (new_events w (snd (merge_pdfs_pypdf2 w))) =
     (if temp_exists w \<and> \<not> list_ex (\<lambda>x. page_key (fst x) = None) (pdf_candidates w)
      then map file_event (takeWhile passes (pdf_files w)) else [])"
proof (cases "mergeable_pypdf2 w")
  case True
  then have tw: "takeWhile passes (pdf_files w) = pdf_files w"
    by (simp add: mergeable_pypdf2_def takeWhile_eq_all_conv list_all_iff pdf_files_props(1))
  from True have "temp_exists w \<and> \<not> list_ex (\<lambda>x. page_key (fst x) = None) (pdf_candidates w)"
    by (simp add: mergeable_pypdf2_def)
  with True show ?thesis
    by (simp add: merge_pdfs_pypdf2_eq new_events_merge file_events_of_files tw
        del: takeWhile_eq_all_conv)
next
  case False
  then show ?thesis
    by (simp add: merge_pdfs_pypdf2_eq new_events_merge file_events_of_files)
qed

lemma processed_sorted:
  assumes "filter is_file_event (new_events w w') =
     (if c then map file_event (takeWhile passes (pdf_files w)) else [])"
  shows "sorted (map page_number (processed w w'))"
proof -
  have "sorted (map (\<lambda>x. page_number (fst x)) (takeWhile passes (pdf_files w)))"
    by (intro sorted_map_takeWhile pdf_files_props(5))
  moreover have "event_file (file_event x) = fst x" for x
    by (simp add: file_event_def)
  ultimately show ?thesis
    by (simp add: processed_def assms comp_def)
qed

lemma filter_key_distinct:
  "distinct (map f xs) \<Longrightarrow> k \<in> set xs \<Longrightarrow> filter (\<lambda>x. f k = f x) xs = [k]"
proof (induction xs)
  case Nil
  then show ?case by simp
next
  case (Cons x xs)
  show ?case
  proof (cases "x = k")
    case True
    with Cons.prems have "\<forall>y\<in>set xs. f k \<noteq> f y" by auto
    then have "filter (\<lambda>x. f k = f x) xs = []" by (simp add: filter_empty_conv)
    with True show ?thesis by simp
  next
    case False
    with Cons.prems have k: "k \<in> set xs" and d: "distinct (map f xs)" by auto
    from Cons.prems(1) have "f x \<notin> f ` set xs" by simp
    with k have "f k \<noteq> f x" by (metis imageI)
    with Cons.IH [OF d k] show ?thesis by simp
  qed
qed

lemma sort_key_perm_distinct:
  assumes "mset xs = mset ys" "distinct (map f ys)"
  shows "sort_key f xs = sort_key f ys"
proof (rule properties_for_sort_key)
  show "mset (sort_key f ys) = mset xs" using assms by simp
  show "sorted (map f (sort_key f ys))" by simp
  fix k
  assume "k \<in> set (sort_key f ys)"
  then have k: "k \<in> set ys" by simp
  from assms(1) have "mset (map f xs) = mset (map f ys)" by simp
  with assms(2) have dx: "distinct (map f xs)" by (metis mset_eq_imp_distinct_iff)
  from k assms(1) have kx: "k \<in> set xs" by (metis mset_eq_setD)
  have "mset (map f (sort_key f ys)) = mset (map f ys)" by simp
  with assms(2) have ds: "distinct (map f (sort_key f ys))" by (metis mset_eq_imp_distinct_iff)
  show "filter (\<lambda>x. f k = f x) (sort_key f ys) = filter (\<lambda>x. f k = f x) xs"
    using filter_key_distinct [OF dx kx] filter_key_distinct [OF ds \<open>k \<in> set (sort_key f ys)\<close>]
    by simp
qed

lemma permuted_directory:
  assumes "mset fs = mset (temp_files w)"
    "distinct (map (\<lambda>x. page_number (fst x)) (pdf_candidates w))"
  shows "pdf_files (w\<lparr>temp_files := fs\<rparr>) = pdf_files w"
    "set (pdf_candidates (w\<lparr>temp_files := fs\<rparr>)) = set (pdf_candidates w)"
    "mergeable (w\<lparr>temp_files := fs\<rparr>) = mergeable w"
    "mergeable_pypdf2 (w\<lparr>temp_files := fs\<rparr>) = mergeable_pypdf2 w"
proof -
  have m: "mset (pdf_candidates (w\<lparr>temp_files := fs\<rparr>)) = mset (pdf_candidates w)"
    using assms(1) by (simp add: pdf_candidates_def)
  then show s: "set (pdf_candidates (w\<lparr>temp_files := fs\<rparr>)) = set (pdf_candidates w)"
    by (rule mset_eq_setD)
  show "pdf_files (w\<lparr>temp_files := fs\<rparr>) = pdf_files w"
    unfolding pdf_files_def using m assms(2) by (rule sort_key_perm_distinct)
  show "mergeable (w\<lparr>temp_files := fs\<rparr>) = mergeable w"
    by (simp add: mergeable_def list_ex_iff list_all_iff s)
  show "mergeable_pypdf2 (w\<lparr>temp_files := fs\<rparr>) = mergeable_pypdf2 w"
    by (simp add: mergeable_pypdf2_def list_ex_iff list_all_iff s)
qed

lemma merge_pdfs_permuted:
  assumes "mset fs = mset (temp_files w)"
    "distinct (map (\<lambda>x. page_number (fst x)) (pdf_candidates w))"
  shows "merge_pdfs (w\<lparr>temp_files := fs\<rparr>) =
      (fst (merge_pdfs w), (snd (merge_pdfs w))\<lparr>temp_files := fs\<rparr>)"
    "merge_pdfs_pypdf2 (w\<lparr>temp_files := fs\<rparr>) =
      (fst (merge_pdfs_pypdf2 w), (snd (merge_pdfs_pypdf2 w))\<lparr>temp_files := fs\<rparr>)"
proof -
  note p = permuted_directory [OF assms]
  have k: "list_ex (\<lambda>x. page_key (fst x) = None) (pdf_candidates (w\<lparr>temp_files := fs\<rparr>)) =
      list_ex (\<lambda>x. page_key (fst x) = None) (pdf_candidates w)"
    by (simp add: list_ex_iff p(2))
  show "merge_pdfs (w\<lparr>temp_files := fs\<rparr>) =
      (fst (merge_pdfs w), (snd (merge_pdfs w))\<lparr>temp_files := fs\<rparr>)"
    by (simp add: merge_pdfs_eq [of w] merge_pdfs_eq [of "w\<lparr>temp_files := fs\<rparr>"] p(1,3) k
        save_output_def log_event_def)
  show "merge_pdfs_pypdf2 (w\<lparr>temp_files := fs\<rparr>) =
      (fst (merge_pdfs_pypdf2 w), (snd (merge_pdfs_pypdf2 w))\<lparr>temp_files := fs\<rparr>)"
    by (simp add: merge_pdfs_pypdf2_eq [of w] merge_pdfs_pypdf2_eq [of "w\<lparr>temp_files := fs\<rparr>"]
        p(1,4) k save_output_def log_event_def)
qed

lemma merge_pdfs_result:
  "fst (merge_pdfs w) = mergeable w"
  "output_files (snd (merge_pdfs w)) =
     (if mergeable w then List.insert (output_name (fst (hd (pdf_files w)))) (output_files w)
      else output_files w)"
  "filter is_saved (new_events w (snd (merge_pdfs w))) =
     (if mergeable w then [Saved (output_name (fst (hd (pdf_files w))))] else [])"
proof -
  have n: "\<not> temp_exists w \<or> list_ex (\<lambda>x. page_key (fst x) = None) (pdf_candidates w) \<Longrightarrow>
      \<not> mergeable w"
    by (auto simp: mergeable_def)
  show "fst (merge_pdfs w) = mergeable w"
    using n by (simp add: merge_pdfs_eq)
  show "output_files (snd (merge_pdfs w)) =
     (if mergeable w then List.insert (output_name (fst (hd (pdf_files w)))) (output_files w)
      else output_files w)"
    using n by (simp add: merge_pdfs_eq save_output_def log_event_def)
  show "filter is_saved (new_events w (snd (merge_pdfs w))) =
     (if mergeable w then [Saved (output_name (fst (hd (pdf_files w))))] else [])"
    using n by (simp add: merge_pdfs_eq new_events_merge file_events_of_files)
qed

lemma merge_pdfs_pypdf2_result:
  "fst (merge_pdfs_pypdf2 w) = mergeable_pypdf2 w"
  "output_files (snd (merge_pdfs_pypdf2 w)) =
     (if mergeable_pypdf2 w
      then List.insert (output_name (fst (hd (filter big_enough (pdf_files w))))) (output_files w)
      else output_files w)"
  "filter is_saved (new_events w (snd (merge_pdfs_pypdf2 w))) =
     (if mergeable_pypdf2 w then [Saved (output_name (fst (hd (filter big_enough (pdf_files w)))))]
      else [])"
proof -
  have n: "\<not> temp_exists w \<or> list_ex (\<lambda>x. page_key (fst x) = None) (pdf_candidates w) \<Longrightarrow>
      \<not> mergeable_pypdf2 w"
    by (auto simp: mergeable_pypdf2_def)
  show "fst (merge_pdfs_pypdf2 w) = mergeable_pypdf2 w"
    using n by (simp add: merge_pdfs_pypdf2_eq)
  show "output_files (snd (merge_pdfs_pypdf2 w)) =
     (if mergeable_pypdf2 w
      then List.insert (output_name (fst (hd (filter big_enough (pdf_files w))))) (output_files w)
      else output_files w)"
    using n by (simp add: merge_pdfs_pypdf2_eq save_output_def log_event_def)
  show "filter is_saved (new_events w (snd (merge_pdfs_pypdf2 w))) =
     (if mergeable_pypdf2 w then [Saved (output_name (fst (hd (filter big_enough (pdf_files w)))))]
      else [])"
    using n by (simp add: merge_pdfs_pypdf2_eq new_events_merge file_events_of_files)
qed

lemma network_only_download_edition:
  "download_edition d progress main_task w = (res, w') \<Longrightarrow> network_only w w'"
proof (cases "output_path d \<in> set (output_files w)")
  case True
  assume "download_edition d progress main_task w = (res, w')"
  with True show ?thesis by (simp add: download_edition_def network_only_refl)
next
  case False
  assume a: "download_edition d progress main_task w = (res, w')"
  obtain r w1 where g: "get_page_info (old_cover d) (new_cover d) w = (r, w1)"
    by (cases "get_page_info (old_cover d) (new_cover d) w")
  note n1 = network_only_get_page_info [OF g]
  show ?thesis
  proof (cases r)
    case (Return p)
    obtain total_pages is_new where p: "p = (total_pages, is_new)" by (cases p)
    obtain r2 w2 where f: "fetch_pages (cancel_requested main_task progress) d is_new
        total_pages 1 0 w1 = (r2, w2)"
      by (cases "fetch_pages (cancel_requested main_task progress) d is_new total_pages 1 0 w1")
    from network_only_fetch_pages [OF f] n1 have "network_only w w2"
      by (blast intro: network_only_trans)
    moreover have "w' = w2"
      using a False g Return p f by (cases r2) (simp_all add: download_edition_def)
    ultimately show ?thesis by simp
  next
    case (SysExit c)
    with a False g n1 show ?thesis by (simp add: download_edition_def)
  next
    case Interrupt
    with a False g n1 show ?thesis by (simp add: download_edition_def)
  qed
qed

lemma merge_events_extend:
  "events (snd (merge_pdfs w)) = events w @ new_events w (snd (merge_pdfs w))"
  "events (snd (merge_pdfs_pypdf2 w)) = events w @ new_events w (snd (merge_pdfs_pypdf2 w))"
  by (simp_all add: merge_pdfs_eq merge_pdfs_pypdf2_eq new_events_def save_output_def
      log_event_def)

lemma show_nat_length: "0 < k \<Longrightarrow> n < 10 ^ k \<Longrightarrow> length (show_nat n) \<le> k"
proof (induction k arbitrary: n)
  case 0
  then show ?case by simp
next
  case (Suc k)
  show ?case
  proof (cases "n < 10")
    case True
    then show ?thesis by (simp add: show_nat.simps [of n])
  next
    case False
    with Suc.prems(2) have k: "0 < k" by (cases k) auto
    from Suc.prems(2) have "n div 10 < 10 ^ k" by auto
    from Suc.IH [OF k this] False show ?thesis by (simp add: show_nat.simps [of n])
  qed
qed

lemma length_zero_pad: "0 < k \<Longrightarrow> n < 10 ^ k \<Longrightarrow> length (zero_pad k n) = k"
  using show_nat_length [of k n] by (simp add: zero_pad_def)

lemma length_file_fmt: "valid_date d \<Longrightarrow> length (file_fmt d) = 8"
proof -
  assume v: "valid_date d"
  have "days_in_month (year d) (month d) \<le> 31" by (simp add: days_in_month_def)
  with v have "year d < 10 ^ 4" "month d < 10 ^ 2" "day d < 10 ^ 2"
    by (auto simp: valid_date_def)
  then show ?thesis by (simp add: file_fmt_def length_zero_pad)
qed

lemma output_name_page_filename:
  "valid_date d \<Longrightarrow> output_name (page_filename d p) = output_path d"
  by (simp add: output_name_def page_filename_def output_path_def date_slice_def
      length_file_fmt)

lemma page_files_of_same:
  "temp_files w' = temp_files w \<Longrightarrow> page_files_of d w \<Longrightarrow> page_files_of d w'"
  by (simp add: page_files_of_def)

lemma page_files_of_write:
  "page_files_of d w \<Longrightarrow> page_files_of d (write_temp (page_filename d p) f w)"
  by (auto simp: page_files_of_def write_temp_def update_keys split: if_splits)

lemma page_files_of_sleep: "page_files_of d w \<Longrightarrow> page_files_of d (sleep n w)"
  by (simp add: page_files_of_def sleep_def log_event_def)

lemma download_pdf_loop_files:
  "download_pdf_loop n u (page_filename d p) w = (res, w') \<Longrightarrow> page_files_of d w \<Longrightarrow>
   page_files_of d w'"
proof (induction n arbitrary: w)
  case 0
  then show ?case by auto
next
  case (Suc n)
  obtain r w1 where g: "requests_get u w = (r, w1)" by (cases "requests_get u w")
  from requests_get_frame [OF g] Suc.prems(2) have f: "page_files_of d w1"
    by (auto intro: page_files_of_same)
  have step: "page_files_of d w2 \<Longrightarrow> download_pdf_loop n u (page_filename d p) w2 = (res, w') \<Longrightarrow>
      page_files_of d w'" for w2
    using Suc.IH by blast
  note s = page_files_of_sleep [OF f, of 1]
  have wr: "page_files_of d (write_temp (page_filename d p) x w1)" for x
    using f by (rule page_files_of_write)
  have swr: "page_files_of d (sleep 1 (write_temp (page_filename d p) x w1))" for x
    using wr by (rule page_files_of_sleep)
  show ?case
  proof (cases r)
    case (Resp x)
    with Suc.prems(1) g f show ?thesis
      by (auto split: if_splits intro: step s wr swr)
  next
    case RaisesException
    with Suc.prems(1) g show ?thesis by (auto intro: step s)
  next
    case RaisesInterrupt
    with Suc.prems(1) g f show ?thesis by simp
  qed
qed

lemma fetch_page_files:
  "fetch_page d is_new page success w = (res, w') \<Longrightarrow> page_files_of d w \<Longrightarrow>
   page_files_of d w'"
proof -
  assume a: "fetch_page d is_new page success w = (res, w')" and p: "page_files_of d w"
  have dl: "download_pdf u (page_filename d page) w2 = (r, w3) \<Longrightarrow> page_files_of d w2 \<Longrightarrow>
      page_files_of d w3" for u w2 r w3
    unfolding download_pdf_def by (rule download_pdf_loop_files)
  have sr: "safe_request u w = (r, w2) \<Longrightarrow> page_files_of d w2" for u r w2
    using safe_request_frame [of u w r w2] p by (auto intro: page_files_of_same)
  show ?thesis
  proof (cases is_new)
    case False
    obtain r w3 where d: "download_pdf (legacy_pdf_url d page) (page_filename d page) w = (r, w3)"
      by (cases "download_pdf (legacy_pdf_url d page) (page_filename d page) w")
    from dl [OF d p] a False d show ?thesis
      by (cases r) (auto simp: fetch_page_def count_download_def)
  next
    case True
    obtain r w2 where s: "safe_request (node_url d page) w = (r, w2)"
      by (cases "safe_request (node_url d page) w")
    note p2 = sr [OF s]
    show ?thesis
    proof (cases r)
      case (Return ro)
      show ?thesis
      proof (cases "case ro of None \<Rightarrow> None | Some x \<Rightarrow> first_attachment (body_text x)")
        case None
        with a True s Return p2 show ?thesis
          by (auto simp: fetch_page_def split: option.splits)
      next
        case (Some m)
        then obtain x where ro: "ro = Some x" "first_attachment (body_text x) = Some m"
          by (auto split: option.splits)
        obtain r3 w3 where d: "download_pdf (attachment_url m) (page_filename d page) w2 = (r3, w3)"
          by (cases "download_pdf (attachment_url m) (page_filename d page) w2")
        from dl [OF d p2] a True s Return ro d show ?thesis
          by (cases r3) (auto simp: fetch_page_def count_download_def)
      qed
    next
      case (SysExit c)
      with a True s p2 show ?thesis by (auto simp: fetch_page_def)
    next
      case Interrupt
      with a True s p2 show ?thesis by (auto simp: fetch_page_def)
    qed
  qed
qed

lemma fetch_pages_files:
  "fetch_pages cancel d is_new k page success w = (res, w') \<Longrightarrow> page_files_of d w \<Longrightarrow>
   page_files_of d w'"
proof (induction k arbitrary: page success w)
  case 0
  then show ?case by auto
next
  case (Suc k)
  show ?case
  proof (cases cancel)
    case True
    with Suc.prems show ?thesis by auto
  next
    case False
    obtain r w1 where g: "fetch_page d is_new page success w = (r, w1)"
      by (cases "fetch_page d is_new page success w")
    note f = fetch_page_files [OF g Suc.prems(2)]
    show ?thesis
    proof (cases r)
      case (Return s')
      with Suc.prems(1) g False have "fetch_pages cancel d is_new k (Suc page) s' w1 = (res, w')"
        by simp
      from Suc.IH [OF this f] show ?thesis .
    next
      case (SysExit c)
      with Suc.prems(1) g False f show ?thesis by simp
    next
      case Interrupt
      with Suc.prems(1) g False f show ?thesis by simp
    qed
  qed
qed

lemma download_edition_files:
  assumes "download_edition d progress main_task (init_environment w0) = (res, w1)"
  shows "page_files_of d w1"
proof (cases "output_path d \<in> set (output_files (init_environment w0))")
  case True
  with assms have "w1 = init_environment w0" by (simp add: download_edition_def)
  then show ?thesis by (simp add: page_files_of_def init_environment_def)
next
  case False
  obtain r wg where g: "get_page_info (old_cover d) (new_cover d) (init_environment w0) = (r, wg)"
    by (cases "get_page_info (old_cover d) (new_cover d) (init_environment w0)")
  from init_environment_get_page_info(2) [OF g] have pg: "page_files_of d wg"
    by (simp add: page_files_of_def)
  show ?thesis
  proof (cases r)
    case (Return p)
    obtain total_pages is_new where p: "p = (total_pages, is_new)" by (cases p)
    obtain r2 w2 where f: "fetch_pages (cancel_requested main_task progress) d is_new
        total_pages 1 0 wg = (r2, w2)"
      by (cases "fetch_pages (cancel_requested main_task progress) d is_new total_pages 1 0 wg")
    have "w1 = w2"
      using assms False g Return p f by (cases r2) (simp_all add: download_edition_def)
    with fetch_pages_files [OF f pg] show ?thesis by simp
  next
    case (SysExit c)
    with assms False g pg show ?thesis by (simp add: download_edition_def)
  next
    case Interrupt
    with assms False g pg show ?thesis by (simp add: download_edition_def)
  qed
qed

lemma mergeable_output_name:
  assumes "valid_date d" "page_files_of d w"
  shows "mergeable w \<Longrightarrow> output_name (fst (hd (pdf_files w))) = output_path d"
    "mergeable_pypdf2 w \<Longrightarrow>
     output_name (fst (hd (filter big_enough (pdf_files w)))) = output_path d"
proof -
  have names: "x \<in> set (pdf_files w) \<Longrightarrow> output_name (fst x) = output_path d" for x
  proof -
    assume "x \<in> set (pdf_files w)"
    then have "x \<in> set (temp_files w)" by (simp add: pdf_files_props(1) pdf_candidates_def)
    then have "fst x \<in> set (map fst (temp_files w))" by simp
    with assms(2) obtain p where "fst x = page_filename d p"
      unfolding page_files_of_def by blast
    with assms(1) show ?thesis by (simp add: output_name_page_filename)
  qed
  {
    assume "mergeable w"
    then have "pdf_files w \<noteq> []"
      by (auto simp: mergeable_def pdf_files_props(4) list_ex_iff)
    then have "hd (pdf_files w) \<in> set (pdf_files w)" by simp
    then show "output_name (fst (hd (pdf_files w))) = output_path d" by (rule names)
  }
  {
    assume "mergeable_pypdf2 w"
    then have "filter big_enough (pdf_files w) \<noteq> []"
      by (auto simp: mergeable_pypdf2_def filter_empty_conv list_ex_iff pdf_files_props(1))
    then have "hd (filter big_enough (pdf_files w)) \<in> set (filter big_enough (pdf_files w))"
      by (rule hd_in_set)
    then have "hd (filter big_enough (pdf_files w)) \<in> set (pdf_files w)" by simp
    then show "output_name (fst (hd (filter big_enough (pdf_files w)))) = output_path d"
      by (rule names)
  }
qed

text \<open>
  The download directory and the saves of the run of one date, for either merge
  variant, from the outcome of the download: \<open>w0\<close> is the world at the start of the
  run, \<open>w1\<close> the world the download left, \<open>w2\<close> the world after the merge, if any.
\<close>

lemma run_output:
  assumes v: "valid_date d"
    and dl: "download_edition d progress main_task (init_environment w0) = (Return ok, w1)"
  shows "output_files (rmtree (if ok then snd (merge_pdfs w1) else w1)) =
      (if ok \<and> mergeable w1 then List.insert (output_path d) (output_files w0)
       else output_files w0)"
    "filter is_saved (new_events w0 (rmtree (if ok then snd (merge_pdfs w1) else w1))) =
      (if ok \<and> mergeable w1 then [Saved (output_path d)] else [])"
    "output_files (rmtree (if ok then snd (merge_pdfs_pypdf2 w1) else w1)) =
      (if ok \<and> mergeable_pypdf2 w1 then List.insert (output_path d) (output_files w0)
       else output_files w0)"
    "filter is_saved (new_events w0 (rmtree (if ok then snd (merge_pdfs_pypdf2 w1) else w1))) =
      (if ok \<and> mergeable_pypdf2 w1 then [Saved (output_path d)] else [])"
proof -
  from network_only_download_edition [OF dl] obtain ev
    where o: "output_files w1 = output_files w0"
      and e: "events w1 = events w0 @ ev" "list_all (\<lambda>e. is_request e \<or> is_sleep e) ev"
    by (auto simp: network_only_def init_environment_def)
  have ns: "filter is_saved ev = []"
    using e(2) by (induction ev) (auto elim: is_request.elims is_sleep.elims)
  note nm = mergeable_output_name [OF v download_edition_files [OF dl]]
  have run: "filter is_saved (new_events w0 (rmtree w2)) = filter is_saved (new_events w1 w2)"
    if "events w2 = events w1 @ new_events w1 w2" for w2
  proof -
    from that e(1) have "events (rmtree w2) = events w0 @ ev @ new_events w1 w2 @ [Rmtree]"
      by (simp add: rmtree_def log_event_def)
    then show ?thesis by (simp add: new_events_def [of w0] ns)
  qed
  have same: "events w1 = events w1 @ new_events w1 w1" by (simp add: new_events_def)
  show "output_files (rmtree (if ok then snd (merge_pdfs w1) else w1)) =
      (if ok \<and> mergeable w1 then List.insert (output_path d) (output_files w0)
       else output_files w0)"
    using nm(1) by (simp add: rmtree_def log_event_def merge_pdfs_result(2) o)
  show "output_files (rmtree (if ok then snd (merge_pdfs_pypdf2 w1) else w1)) =
      (if ok \<and> mergeable_pypdf2 w1 then List.insert (output_path d) (output_files w0)
       else output_files w0)"
    using nm(2) by (simp add: rmtree_def log_event_def merge_pdfs_pypdf2_result(2) o)
  show "filter is_saved (new_events w0 (rmtree (if ok then snd (merge_pdfs w1) else w1))) =
      (if ok \<and> mergeable w1 then [Saved (output_path d)] else [])"
    using nm(1) run [OF merge_events_extend(1) [of w1]] run [OF same]
    by (simp add: merge_pdfs_result(3) new_events_merge(3))
  show "filter is_saved (new_events w0 (rmtree (if ok then snd (merge_pdfs_pypdf2 w1) else w1))) =
      (if ok \<and> mergeable_pypdf2 w1 then [Saved (output_path d)] else [])"
    using nm(2) run [OF merge_events_extend(2) [of w1]] run [OF same]
    by (simp add: merge_pdfs_pypdf2_result(3) new_events_merge(3))
qed

text \<open>
  C2, as the specification states it: the output is written if and only if at least one
  valid page file exists at assembly time. On the code, an edition of two pages whose
  second page arrives as 2048 bytes that do not open as a PDF is downloaded in full, the
  first page is a valid file in the directory, and yet the merge stops at the corrupt
  file: nothing is saved, in either variant.
\<close>

theorem corrupt_page_counterexample:
  "download_edition (mk_date 2024 1 1) None None
     (init_environment (world0 [not_found, legacy_cover ''nbs nbs'', pdf_page, corrupt_page])) =
   (Return True,
    \<lparr>replies = [],
     events = [Request (new_cover (mk_date 2024 1 1)), Request (old_cover (mk_date 2024 1 1)),
       Request (legacy_pdf_url (mk_date 2024 1 1) 1),
       Request (legacy_pdf_url (mk_date 2024 1 1) 2)],
     temp_exists = True,
     temp_files = [(''rmrb2024010101.pdf'', good_file), (''rmrb2024010102.pdf'', corrupt_file)],
     output_files = []\<rparr>) \<and>
   merge_pdfs
     (directory [(''rmrb2024010101.pdf'', good_file), (''rmrb2024010102.pdf'', corrupt_file)]) =
   (False,
    \<lparr>replies = [], events = [Inserted ''rmrb2024010101.pdf''], temp_exists = True,
     temp_files = [(''rmrb2024010101.pdf'', good_file), (''rmrb2024010102.pdf'', corrupt_file)],
     output_files = []\<rparr>) \<and>
   merge_pdfs_pypdf2
     (directory [(''rmrb2024010101.pdf'', good_file), (''rmrb2024010102.pdf'', corrupt_file)]) =
   (False,
    \<lparr>replies = [], events = [Inserted ''rmrb2024010101.pdf''], temp_exists = True,
     temp_files = [(''rmrb2024010101.pdf'', good_file), (''rmrb2024010102.pdf'', corrupt_file)],
     output_files = []\<rparr>)"
proof (intro conjI)
  show "download_edition (mk_date 2024 1 1) None None
     (init_environment (world0 [not_found, legacy_cover ''nbs nbs'', pdf_page, corrupt_page])) =
   (Return True,
    \<lparr>replies = [],
     events = [Request (new_cover (mk_date 2024 1 1)), Request (old_cover (mk_date 2024 1 1)),
       Request (legacy_pdf_url (mk_date 2024 1 1) 1),
       Request (legacy_pdf_url (mk_date 2024 1 1) 2)],
     temp_exists = True,
     temp_files = [(''rmrb2024010101.pdf'', good_file), (''rmrb2024010102.pdf'', corrupt_file)],
     output_files = []\<rparr>)"
    by (simp add: run_defs page_filename_Suc)
qed (simp_all add: merge_defs)

text \<open>
  C2, amended: \<^verbatim>\<open>merge_pdfs\<close> (which \<^verbatim>\<open>main\<close> calls only when the download reported
  every page) succeeds if and only if the temporary directory exists, every \<^verbatim>\<open>.pdf\<close>
  name in it yields a page number, every such file of 1024 bytes or more opens, and at
  least one such file of that size exists (PyPDF2 variant) or adds a page to the
  composite document (PyMuPDF variant, which cannot save an empty document). When it
  succeeds it saves the output exactly once and the download directory gains that one
  path; when it fails nothing is saved and the download directory is unchanged. For the
  whole run of a date, in single-date mode and in a batch iteration, with either
  variant: the download directory gains the canonical output path of the date, by
  exactly one save, when the download returned True and left the temporary directory in
  that state; otherwise nothing is saved and the download directory is unchanged. A page
  file that opens but has no page separates the variants: PyPDF2 writes the output,
  PyMuPDF does not.
\<close>

theorem merge_output_iff_mergeable:
  "fst (merge_pdfs w) = mergeable w \<and>
   fst (merge_pdfs_pypdf2 w) = mergeable_pypdf2 w \<and>
   (mergeable w \<longrightarrow>
      filter is_saved (new_events w (snd (merge_pdfs w))) =
        [Saved (output_name (fst (hd (pdf_files w))))] \<and>
      output_files (snd (merge_pdfs w)) =
        List.insert (output_name (fst (hd (pdf_files w)))) (output_files w)) \<and>
   (mergeable_pypdf2 w \<longrightarrow>
      filter is_saved (new_events w (snd (merge_pdfs_pypdf2 w))) =
        [Saved (output_name (fst (hd (filter big_enough (pdf_files w)))))] \<and>
      output_files (snd (merge_pdfs_pypdf2 w)) =
        List.insert (output_name (fst (hd (filter big_enough (pdf_files w))))) (output_files w)) \<and>
   (\<not> mergeable w \<longrightarrow>
      filter is_saved (new_events w (snd (merge_pdfs w))) = [] \<and>
      output_files (snd (merge_pdfs w)) = output_files w) \<and>
   (\<not> mergeable_pypdf2 w \<longrightarrow>
      filter is_saved (new_events w (snd (merge_pdfs_pypdf2 w))) = [] \<and>
      output_files (snd (merge_pdfs_pypdf2 w)) = output_files w) \<and>
   (\<forall>d w0 ok w1.
      valid_date d \<and>
      download_edition d None None (init_environment w0) = (Return ok, w1) \<longrightarrow>
      fst (single_date merge_pdfs d w0) = 0 \<and>
      output_files (snd (single_date merge_pdfs d w0)) =
        (if ok \<and> mergeable w1 then List.insert (output_path d) (output_files w0)
         else output_files w0) \<and>
      filter is_saved (new_events w0 (snd (single_date merge_pdfs d w0))) =
        (if ok \<and> mergeable w1 then [Saved (output_path d)] else []) \<and>
      fst (single_date merge_pdfs_pypdf2 d w0) = 0 \<and>
      output_files (snd (single_date merge_pdfs_pypdf2 d w0)) =
        (if ok \<and> mergeable_pypdf2 w1 then List.insert (output_path d) (output_files w0)
         else output_files w0) \<and>
      filter is_saved (new_events w0 (snd (single_date merge_pdfs_pypdf2 d w0))) =
        (if ok \<and> mergeable_pypdf2 w1 then [Saved (output_path d)] else [])) \<and>
   (\<forall>d finished w0 ok w1.
      valid_date d \<and>
      download_edition d (Some finished) (Some 0) (init_environment w0) = (Return ok, w1) \<longrightarrow>
      fst (batch_day merge_pdfs d finished w0) = Return () \<and>
      output_files (snd (batch_day merge_pdfs d finished w0)) =
        (if ok \<and> mergeable w1 then List.insert (output_path d) (output_files w0)
         else output_files w0) \<and>
      filter is_saved (new_events w0 (snd (batch_day merge_pdfs d finished w0))) =
        (if ok \<and> mergeable w1 then [Saved (output_path d)] else []) \<and>
      fst (batch_day merge_pdfs_pypdf2 d finished w0) = Return () \<and>
      output_files (snd (batch_day merge_pdfs_pypdf2 d finished w0)) =
        (if ok \<and> mergeable_pypdf2 w1 then List.insert (output_path d) (output_files w0)
         else output_files w0) \<and>
      filter is_saved (new_events w0 (snd (batch_day merge_pdfs_pypdf2 d finished w0))) =
        (if ok \<and> mergeable_pypdf2 w1 then [Saved (output_path d)] else [])) \<and>
   merge_pdfs (directory [(''rmrb2024010101.pdf'', empty_file)]) =
     (False,
      \<lparr>replies = [], events = [Inserted ''rmrb2024010101.pdf''], temp_exists = True,
       temp_files = [(''rmrb2024010101.pdf'', empty_file)], output_files = []\<rparr>) \<and>
   merge_pdfs_pypdf2 (directory [(''rmrb2024010101.pdf'', empty_file)]) =
     (True,
      \<lparr>replies = [],
       events = [Inserted ''rmrb2024010101.pdf'', Saved ''People's.Daily.20240101.pdf''],
       temp_exists = True, temp_files = [(''rmrb2024010101.pdf'', empty_file)],
       output_files = [''People's.Daily.20240101.pdf'']\<rparr>)"
proof (intro conjI allI impI)
  fix d w0 ok w1
  assume a: "valid_date d \<and>
      download_edition d None None (init_environment w0) = (Return ok, w1)"
  then have v: "valid_date d"
    and dl: "download_edition d None None (init_environment w0) = (Return ok, w1)" by simp_all
  note r = run_output [OF v dl]
  show "fst (single_date merge_pdfs d w0) = 0" "fst (single_date merge_pdfs_pypdf2 d w0) = 0"
    by (simp_all add: single_date_def dl)
  show "output_files (snd (single_date merge_pdfs d w0)) =
        (if ok \<and> mergeable w1 then List.insert (output_path d) (output_files w0)
         else output_files w0)"
    using r(1) by (simp add: single_date_def dl)
  show "filter is_saved (new_events w0 (snd (single_date merge_pdfs d w0))) =
        (if ok \<and> mergeable w1 then [Saved (output_path d)] else [])"
    using r(2) by (simp add: single_date_def dl)
  show "output_files (snd (single_date merge_pdfs_pypdf2 d w0)) =
        (if ok \<and> mergeable_pypdf2 w1 then List.insert (output_path d) (output_files w0)
         else output_files w0)"
    using r(3) by (simp add: single_date_def dl)
  show "filter is_saved (new_events w0 (snd (single_date merge_pdfs_pypdf2 d w0))) =
        (if ok \<and> mergeable_pypdf2 w1 then [Saved (output_path d)] else [])"
    using r(4) by (simp add: single_date_def dl)
next
  fix d finished w0 ok w1
  assume a: "valid_date d \<and>
      download_edition d (Some finished) (Some 0) (init_environment w0) = (Return ok, w1)"
  then have v: "valid_date d"
    and dl: "download_edition d (Some finished) (Some 0) (init_environment w0) = (Return ok, w1)"
    by simp_all
  note r = run_output [OF v dl]
  show "fst (batch_day merge_pdfs d finished w0) = Return ()"
    "fst (batch_day merge_pdfs_pypdf2 d finished w0) = Return ()"
    by (simp_all add: batch_day_def dl)
  show "output_files (snd (batch_day merge_pdfs d finished w0)) =
        (if ok \<and> mergeable w1 then List.insert (output_path d) (output_files w0)
         else output_files w0)"
    using r(1) by (simp add: batch_day_def dl)
  show "filter is_saved (new_events w0 (snd (batch_day merge_pdfs d finished w0))) =
        (if ok \<and> mergeable w1 then [Saved (output_path d)] else [])"
    using r(2) by (simp add: batch_day_def dl)
  show "output_files (snd (batch_day merge_pdfs_pypdf2 d finished w0)) =
        (if ok \<and> mergeable_pypdf2 w1 then List.insert (output_path d) (output_files w0)
         else output_files w0)"
    using r(3) by (simp add: batch_day_def dl)
  show "filter is_saved (new_events w0 (snd (batch_day merge_pdfs_pypdf2 d finished w0))) =
        (if ok \<and> mergeable_pypdf2 w1 then [Saved (output_path d)] else [])"
    using r(4) by (simp add: batch_day_def dl)
next
  show "merge_pdfs (directory [(''rmrb2024010101.pdf'', empty_file)]) =
     (False,
      \<lparr>replies = [], events = [Inserted ''rmrb2024010101.pdf''], temp_exists = True,
       temp_files = [(''rmrb2024010101.pdf'', empty_file)], output_files = []\<rparr>)"
    by (simp add: merge_defs)
  show "merge_pdfs_pypdf2 (directory [(''rmrb2024010101.pdf'', empty_file)]) =
     (True,
      \<lparr>replies = [],
       events = [Inserted ''rmrb2024010101.pdf'', Saved ''People's.Daily.20240101.pdf''],
       temp_exists = True, temp_files = [(''rmrb2024010101.pdf'', empty_file)],
       output_files = [''People's.Daily.20240101.pdf'']\<rparr>)"
    by (simp add: merge_defs)
qed (simp_all add: merge_pdfs_result merge_pdfs_pypdf2_result)

theorem merge_output_iff_mergeable_witness:
  "output_files (snd (single_date merge_pdfs (mk_date 2024 1 1)
     (world0 [not_found, legacy_cover ''nbs'', pdf_page]))) = [''People's.Daily.20240101.pdf''] \<and>
   output_files (snd (merge_pdfs
     (directory [(''rmrb2024010102.pdf'', good_file), (''rmrb2024010101.pdf'', small_file)]))) =
   [''People's.Daily.20240101.pdf'']"
proof
  let ?w0 = "world0 [not_found, legacy_cover ''nbs'', pdf_page]"
  let ?w1 = "\<lparr>replies = [],
     events = [Request (new_cover (mk_date 2024 1 1)), Request (old_cover (mk_date 2024 1 1)),
       Request (legacy_pdf_url (mk_date 2024 1 1) 1)],
     temp_exists = True, temp_files = [(''rmrb2024010101.pdf'', good_file)],
     output_files = []\<rparr>"
  have v: "valid_date (mk_date 2024 1 1)"
    by (simp add: valid_date_def mk_date_def days_in_month_def)
  have "download_edition (mk_date 2024 1 1) None None (init_environment ?w0) = (Return True, ?w1)"
    by (simp add: run_defs page_filename_Suc)
  with v have h: "valid_date (mk_date 2024 1 1) \<and>
    download_edition (mk_date 2024 1 1) None None (init_environment ?w0) = (Return True, ?w1)"
    by (rule conjI)
  have m: "mergeable ?w1"
    by (simp add: mergeable_def merge_defs adds_pages_def passes_def)
  have o: "output_files ?w0 = []" by (simp add: world0_def)
  from merge_output_iff_mergeable [THEN conjunct2, THEN conjunct2, THEN conjunct2,
      THEN conjunct2, THEN conjunct2, THEN conjunct2, THEN conjunct1, rule_format, OF h,
      THEN conjunct2, THEN conjunct1]
  have eq: "output_files (snd (single_date merge_pdfs (mk_date 2024 1 1) ?w0)) =
      (if True \<and> mergeable ?w1 then List.insert (output_path (mk_date 2024 1 1)) (output_files ?w0)
       else output_files ?w0)" .
  show "output_files (snd (single_date merge_pdfs (mk_date 2024 1 1) ?w0)) =
      [''People's.Daily.20240101.pdf'']"
    unfolding eq o output_path_example by (simp only: m simp_thms if_True List.insert_Nil)
next
  let ?w = "directory [(''rmrb2024010102.pdf'', good_file), (''rmrb2024010101.pdf'', small_file)]"
  have h: "mergeable ?w"
    by (simp add: mergeable_def merge_defs adds_pages_def passes_def)
  have "output_name (fst (hd (pdf_files ?w))) = ''People's.Daily.20240101.pdf''"
    by (simp add: merge_defs)
  with merge_output_iff_mergeable [of ?w, THEN conjunct2, THEN conjunct2, THEN conjunct1,
      rule_format, OF h, THEN conjunct2]
  show "output_files (snd (merge_pdfs ?w)) = [''People's.Daily.20240101.pdf'']" by simp
qed

text \<open>
  C9: the files the merge goes through are in ascending order of the page number read
  from the two characters before \<^verbatim>\<open>.pdf\<close>. When the directory exists and every
  \<^verbatim>\<open>.pdf\<close> name yields a page number, the merge goes through the sorted files up
  to the first one that neither is under 1024 bytes nor opens; a file under 1024 bytes
  is passed with the warning \<open>Skipped\<close> and never stops the loop, and the sorted list
  holds every candidate exactly once. When the page numbers are distinct, the result
  does not depend on the order in which the directory lists its files. Three files of
  pages 07, 02 and 10, whose names sort the other way round as strings, are processed in
  the order 02, 07, 10 whatever the listing order; the undersized page 07 is skipped and
  the merge succeeds.
\<close>

theorem merge_in_page_order:
  "sorted (map page_number (processed w (snd (merge_pdfs w)))) \<and>
   sorted (map page_number (processed w (snd (merge_pdfs_pypdf2 w)))) \<and>
   (temp_exists w \<and> \<not> list_ex (\<lambda>x. page_key (fst x) = None) (pdf_candidates w) \<longrightarrow>
      filter is_file_event (new_events w (snd (merge_pdfs w))) =
        map file_event (takeWhile passes (pdf_files w)) \<and>
      filter is_file_event (new_events w (snd (merge_pdfs_pypdf2 w))) =
        map file_event (takeWhile passes (pdf_files w)) \<and>
      mset (pdf_files w) = mset (pdf_candidates w)) \<and>
   (\<forall>x. file_size (snd x) < 1024 \<longrightarrow> passes x \<and> file_event x = Skipped (fst x)) \<and>
   (\<forall>fs. mset fs = mset (temp_files w) \<and>
      distinct (map (\<lambda>x. page_number (fst x)) (pdf_candidates w)) \<longrightarrow>
      merge_pdfs (w\<lparr>temp_files := fs\<rparr>) =
        (fst (merge_pdfs w), (snd (merge_pdfs w))\<lparr>temp_files := fs\<rparr>) \<and>
      merge_pdfs_pypdf2 (w\<lparr>temp_files := fs\<rparr>) =
        (fst (merge_pdfs_pypdf2 w), (snd (merge_pdfs_pypdf2 w))\<lparr>temp_files := fs\<rparr>)) \<and>
   (\<forall>fs. mset fs = mset [(''page2024010107.pdf'', small_file),
        (''rmrb2024010102.pdf'', good_file), (''copy2024010110.pdf'', good_file)] \<longrightarrow>
      merge_pdfs (directory fs) =
        (True,
         \<lparr>replies = [],
          events = [Inserted ''rmrb2024010102.pdf'', Skipped ''page2024010107.pdf'',
            Inserted ''copy2024010110.pdf'', Saved ''People's.Daily.20240101.pdf''],
          temp_exists = True, temp_files = fs,
          output_files = [''People's.Daily.20240101.pdf'']\<rparr>) \<and>
      merge_pdfs_pypdf2 (directory fs) =
        (True,
         \<lparr>replies = [],
          events = [Inserted ''rmrb2024010102.pdf'', Skipped ''page2024010107.pdf'',
            Inserted ''copy2024010110.pdf'', Saved ''People's.Daily.20240101.pdf''],
          temp_exists = True, temp_files = fs,
          output_files = [''People's.Daily.20240101.pdf'']\<rparr>))"
proof (intro conjI allI impI)
  show "sorted (map page_number (processed w (snd (merge_pdfs w))))"
    by (rule processed_sorted [OF merge_pdfs_file_events])
  show "sorted (map page_number (processed w (snd (merge_pdfs_pypdf2 w))))"
    by (rule processed_sorted [OF merge_pdfs_pypdf2_file_events])
next
  assume a: "temp_exists w \<and> \<not> list_ex (\<lambda>x. page_key (fst x) = None) (pdf_candidates w)"
  show "filter is_file_event (new_events w (snd (merge_pdfs w))) =
        map file_event (takeWhile passes (pdf_files w))"
    using a by (simp add: merge_pdfs_file_events)
  show "filter is_file_event (new_events w (snd (merge_pdfs_pypdf2 w))) =
        map file_event (takeWhile passes (pdf_files w))"
    using a by (simp add: merge_pdfs_pypdf2_file_events)
  show "mset (pdf_files w) = mset (pdf_candidates w)"
    by (simp add: pdf_files_def)
next
  fix x :: "string \<times> pdf_file"
  assume "file_size (snd x) < 1024"
  then show "passes x" "file_event x = Skipped (fst x)"
    by (simp_all add: passes_def file_event_def)
next
  fix fs
  assume a: "mset fs = mset (temp_files w) \<and>
      distinct (map (\<lambda>x. page_number (fst x)) (pdf_candidates w))"
  then show "merge_pdfs (w\<lparr>temp_files := fs\<rparr>) =
        (fst (merge_pdfs w), (snd (merge_pdfs w))\<lparr>temp_files := fs\<rparr>)"
    by (intro merge_pdfs_permuted) auto
  from a show "merge_pdfs_pypdf2 (w\<lparr>temp_files := fs\<rparr>) =
        (fst (merge_pdfs_pypdf2 w), (snd (merge_pdfs_pypdf2 w))\<lparr>temp_files := fs\<rparr>)"
    by (intro merge_pdfs_permuted) auto
next
  fix fs
  let ?fs0 = "[(''page2024010107.pdf'', small_file),
        (''rmrb2024010102.pdf'', good_file), (''copy2024010110.pdf'', good_file)]"
  assume a: "mset fs = mset ?fs0"
  have d: "distinct (map (\<lambda>x. page_number (fst x)) (pdf_candidates (directory ?fs0)))"
    by (simp add: merge_defs)
  have t: "mset fs = mset (temp_files (directory ?fs0))"
    using a by simp
  have e: "(directory ?fs0)\<lparr>temp_files := fs\<rparr> = directory fs"
    by simp
  have 1: "merge_pdfs (directory ?fs0) =
        (True,
         \<lparr>replies = [],
          events = [Inserted ''rmrb2024010102.pdf'', Skipped ''page2024010107.pdf'',
            Inserted ''copy2024010110.pdf'', Saved ''People's.Daily.20240101.pdf''],
          temp_exists = True, temp_files = ?fs0,
          output_files = [''People's.Daily.20240101.pdf'']\<rparr>)"
    by (simp add: merge_defs)
  have 2: "merge_pdfs_pypdf2 (directory ?fs0) =
        (True,
         \<lparr>replies = [],
          events = [Inserted ''rmrb2024010102.pdf'', Skipped ''page2024010107.pdf'',
            Inserted ''copy2024010110.pdf'', Saved ''People's.Daily.20240101.pdf''],
          temp_exists = True, temp_files = ?fs0,
          output_files = [''People's.Daily.20240101.pdf'']\<rparr>)"
    by (simp add: merge_defs)
  show "merge_pdfs (directory fs) =
        (True,
         \<lparr>replies = [],
          events = [Inserted ''rmrb2024010102.pdf'', Skipped ''page2024010107.pdf'',
            Inserted ''copy2024010110.pdf'', Saved ''People's.Daily.20240101.pdf''],
          temp_exists = True, temp_files = fs,
          output_files = [''People's.Daily.20240101.pdf'']\<rparr>)"
    using merge_pdfs_permuted(1) [OF t d] unfolding e 1 by simp
  show "merge_pdfs_pypdf2 (directory fs) =
        (True,
         \<lparr>replies = [],
          events = [Inserted ''rmrb2024010102.pdf'', Skipped ''page2024010107.pdf'',
            Inserted ''copy2024010110.pdf'', Saved ''People's.Daily.20240101.pdf''],
          temp_exists = True, temp_files = fs,
          output_files = [''People's.Daily.20240101.pdf'']\<rparr>)"
    using merge_pdfs_permuted(2) [OF t d] unfolding e 2 by simp
qed

theorem merge_in_page_order_witness:
  "processed
     (directory [(''copy2024010110.pdf'', good_file), (''page2024010107.pdf'', small_file),
        (''rmrb2024010102.pdf'', good_file)])
     (snd (merge_pdfs
       (directory [(''copy2024010110.pdf'', good_file), (''page2024010107.pdf'', small_file),
          (''rmrb2024010102.pdf'', good_file)]))) =
   [''rmrb2024010102.pdf'', ''page2024010107.pdf'', ''copy2024010110.pdf'']"
proof -
  let ?fs = "[(''copy2024010110.pdf'', good_file), (''page2024010107.pdf'', small_file),
        (''rmrb2024010102.pdf'', good_file)]"
  have h: "mset ?fs = mset [(''page2024010107.pdf'', small_file),
        (''rmrb2024010102.pdf'', good_file), (''copy2024010110.pdf'', good_file)]"
    by simp
  from merge_in_page_order [of "directory ?fs", THEN conjunct2, THEN conjunct2, THEN conjunct2,
      THEN conjunct2, THEN conjunct2, rule_format, OF h, THEN conjunct1]
  show ?thesis
    by (simp add: processed_def new_events_def)
qed

section \<open>Properties of the date range\<close>

lemma date_less_irrefl: "\<not> date_less a a"
  by (simp add: date_less_def)

lemma date_less_trans: "date_less a b \<Longrightarrow> date_less b c \<Longrightarrow> date_less a c"
  by (auto simp: date_less_def)

lemma date_less_linear: "date_less a b \<or> a = b \<or> date_less b a"
  by (cases a; cases b) (auto simp: date_less_def)

lemma date_le_iff: "date_le a b = (\<not> date_less b a)"
  using date_less_linear [of a b] date_less_irrefl date_less_trans
  by (auto simp: date_le_def)

lemma date_le_trans: "date_le a b \<Longrightarrow> date_le b c \<Longrightarrow> date_le a c"
  using date_less_trans by (auto simp: date_le_def)

lemma date_less_le_trans: "date_less a b \<Longrightarrow> date_le b c \<Longrightarrow> date_less a c"
  using date_less_trans by (auto simp: date_le_def)

lemma days_in_month_bounds: "28 \<le> days_in_month y m" "days_in_month y m \<le> 31"
  by (simp_all add: days_in_month_def)

lemma next_day_valid:
  assumes "valid_date c" "next_day c = Some n"
  shows "valid_date n" "date_less c n"
proof -
  have b: "28 \<le> days_in_month y m" for y m by (rule days_in_month_bounds)
  show "valid_date n"
    using assms b [of "year c" "Suc (month c)"] b [of "Suc (year c)" 1]
    by (auto simp: next_day_def valid_date_def mk_date_def split: if_splits)
  show "date_less c n"
    using assms by (auto simp: next_day_def date_less_def mk_date_def split: if_splits)
qed

lemma next_day_least:
  assumes "valid_date c" "next_day c = Some n" "valid_date x" "date_less c x"
  shows "date_le n x"
proof (cases x)
  case (fields y m d)
  with assms show ?thesis
    by (auto simp: next_day_def valid_date_def date_le_def date_less_def mk_date_def
        split: if_splits)
qed

lemma next_day_Some:
  "valid_date c \<Longrightarrow> year c < 9999 \<Longrightarrow> \<exists>n. next_day c = Some n"
  by (simp add: next_day_def)

lemma date_loop_days:
  "valid_date c \<Longrightarrow> year e < 9999 \<Longrightarrow>
   \<exists>L. date_loop c e acc = Some (acc @ L) \<and>
       set L = {x. valid_date x \<and> date_le c x \<and> date_le x e} \<and>
       sorted_wrt date_less L"
proof (induction c e acc rule: date_loop.induct)
  case (1 c e acc)
  show ?case
  proof (cases "date_le c e")
    case False
    then have "{x. valid_date x \<and> date_le c x \<and> date_le x e} = {}"
      using date_le_trans by blast
    with False show ?thesis by (simp add: date_loop.simps [of c e acc])
  next
    case True
    then have "year c \<le> year e" by (auto simp: date_le_def date_less_def)
    with "1.prems" obtain n where n: "next_day c = Some n"
      using next_day_Some [of c] by auto
    note nv = next_day_valid [OF "1.prems"(1) n]
    from "1.IH" [OF True n nv(1) "1.prems"(2)] obtain L
      where L: "date_loop n e (acc @ [c]) = Some ((acc @ [c]) @ L)"
        "set L = {x. valid_date x \<and> date_le n x \<and> date_le x e}"
        "sorted_wrt date_less L" by blast
    have loop: "date_loop c e acc = Some (acc @ c # L)"
      using True n L(1) by (simp add: date_loop.simps [of c e acc])
    have "set (c # L) = {x. valid_date x \<and> date_le c x \<and> date_le x e}"
    proof (intro equalityI subsetI)
      fix x
      assume "x \<in> set (c # L)"
      then consider "x = c" | "x \<in> set L" by auto
      then show "x \<in> {x. valid_date x \<and> date_le c x \<and> date_le x e}"
      proof cases
        case 1
        with True "1.prems"(1) show ?thesis by (simp add: date_le_def)
      next
        case 2
        with L(2) have "valid_date x" "date_le n x" "date_le x e" by auto
        moreover from nv(2) \<open>date_le n x\<close> have "date_le c x"
          using date_less_le_trans by (auto simp: date_le_def)
        ultimately show ?thesis by simp
      qed
    next
      fix x
      assume "x \<in> {x. valid_date x \<and> date_le c x \<and> date_le x e}"
      then have x: "valid_date x" "date_le c x" "date_le x e" by auto
      show "x \<in> set (c # L)"
      proof (cases "x = c")
        case True
        then show ?thesis by simp
      next
        case False
        with x(2) have "date_less c x" by (simp add: date_le_def)
        from next_day_least [OF "1.prems"(1) n x(1) this] x L(2) show ?thesis by simp
      qed
    qed
    moreover have "sorted_wrt date_less (c # L)"
    proof -
      have "date_less c x" if "x \<in> set L" for x
      proof -
        from that L(2) have "date_le n x" by auto
        with nv(2) show ?thesis by (rule date_less_le_trans)
      qed
      with L(3) show ?thesis by simp
    qed
    ultimately show ?thesis using loop by blast
  qed
qed

lemma strptime_ymd_valid: "strptime_ymd s = Some d \<Longrightarrow> valid_date d"
  by (auto simp: strptime_ymd_def Let_def split: if_splits)

lemma validate_date_range_example:
  "\<not> date_less today (mk_date 2024 1 5) \<Longrightarrow>
   validate_date_range today ''2024010120240105'' =
     Return [mk_date 2024 1 1, mk_date 2024 1 2, mk_date 2024 1 3, mk_date 2024 1 4,
       mk_date 2024 1 5]"
proof -
  assume a: "\<not> date_less today (mk_date 2024 1 5)"
  have c: "filter is_digit ''2024010120240105'' = ''2024010120240105''"
    by (simp add: is_digit_def)
  have s: "strptime_ymd ''20240101'' = Some (mk_date 2024 1 1)"
    "strptime_ymd ''20240105'' = Some (mk_date 2024 1 5)"
    by (simp_all add: strptime_ymd_def is_digit_def digits_val_def digit_val_def valid_date_def
        mk_date_def days_in_month_def)
  have l: "date_loop (mk_date 2024 1 1) (mk_date 2024 1 5) [] =
      Some [mk_date 2024 1 1, mk_date 2024 1 2, mk_date 2024 1 3, mk_date 2024 1 4,
       mk_date 2024 1 5]"
    by (simp add: date_loop.simps date_le_def date_less_def next_day_def mk_date_def
        days_in_month_def)
  have o: "\<not> date_less (mk_date 2024 1 5) (mk_date 2024 1 1)" "\<not> year (mk_date 2024 1 1) < 2003"
    by (simp_all add: date_less_def mk_date_def)
  show ?thesis
    unfolding validate_date_range_def c Let_def
    by (simp add: s l o a del: One_nat_def)
qed

text \<open>
  C8: \<^verbatim>\<open>validate_date_range\<close> keeps the digits of its input. Unless exactly 16 remain
  it ends the process with exit code 1, and so it does when one of the two groups of 8
  digits is no date. For a start and an end date it ends the process when the start is
  after the end, the end is after today, or the start year is before 2003; otherwise
  (today being before the year 9999, where adding a day would overflow) it returns a
  list that holds exactly the calendar days from start to end, in strictly ascending
  order. On \<^verbatim>\<open>2024010120240105\<close> that is the five days from 2024-01-01 to 2024-01-05,
  whenever today is not before 2024-01-05.
\<close>

theorem validate_date_range_days:
  "(length (filter is_digit s) \<noteq> 16 \<longrightarrow> validate_date_range today s = SysExit 1) \<and>
   (length (filter is_digit s) = 16 \<and>
      (strptime_ymd (take 8 (filter is_digit s)) = None \<or>
       strptime_ymd (drop 8 (filter is_digit s)) = None) \<longrightarrow>
      validate_date_range today s = SysExit 1) \<and>
   (\<forall>st en.
      length (filter is_digit s) = 16 \<and>
      strptime_ymd (take 8 (filter is_digit s)) = Some st \<and>
      strptime_ymd (drop 8 (filter is_digit s)) = Some en \<longrightarrow>
      (date_less en st \<or> date_less today en \<or> year st < 2003 \<longrightarrow>
         validate_date_range today s = SysExit 1) \<and>
      (\<not> date_less en st \<and> \<not> date_less today en \<and> 2003 \<le> year st \<and> year today < 9999 \<longrightarrow>
         (\<exists>L. validate_date_range today s = Return L \<and>
              set L = {x. valid_date x \<and> date_le st x \<and> date_le x en} \<and>
              sorted_wrt date_less L))) \<and>
   (\<not> date_less today (mk_date 2024 1 5) \<longrightarrow>
      validate_date_range today ''2024010120240105'' =
        Return [mk_date 2024 1 1, mk_date 2024 1 2, mk_date 2024 1 3, mk_date 2024 1 4,
          mk_date 2024 1 5])"
proof (intro conjI allI impI)
  assume "length (filter is_digit s) \<noteq> 16"
  then show "validate_date_range today s = SysExit 1"
    by (simp add: validate_date_range_def Let_def)
next
  assume "length (filter is_digit s) = 16 \<and>
      (strptime_ymd (take 8 (filter is_digit s)) = None \<or>
       strptime_ymd (drop 8 (filter is_digit s)) = None)"
  then show "validate_date_range today s = SysExit 1"
    by (auto simp: validate_date_range_def Let_def split: option.splits)
next
  fix st en
  assume p: "length (filter is_digit s) = 16 \<and>
      strptime_ymd (take 8 (filter is_digit s)) = Some st \<and>
      strptime_ymd (drop 8 (filter is_digit s)) = Some en"
  assume "date_less en st \<or> date_less today en \<or> year st < 2003"
  with p show "validate_date_range today s = SysExit 1"
    by (auto simp: validate_date_range_def Let_def)
next
  fix st en
  assume p: "length (filter is_digit s) = 16 \<and>
      strptime_ymd (take 8 (filter is_digit s)) = Some st \<and>
      strptime_ymd (drop 8 (filter is_digit s)) = Some en"
  assume q: "\<not> date_less en st \<and> \<not> date_less today en \<and> 2003 \<le> year st \<and> year today < 9999"
  from p have v: "valid_date st" by (auto intro: strptime_ymd_valid)
  from q have "year en \<le> year today" by (auto simp: date_less_def)
  with q have "year en < 9999" by simp
  from date_loop_days [OF v this, of "[]"] obtain L
    where L: "date_loop st en [] = Some L"
      "set L = {x. valid_date x \<and> date_le st x \<and> date_le x en}" "sorted_wrt date_less L"
    by auto
  from p q L(1) have "validate_date_range today s = Return L"
    by (simp add: validate_date_range_def Let_def)
  with L(2,3) show "\<exists>L. validate_date_range today s = Return L \<and>
              set L = {x. valid_date x \<and> date_le st x \<and> date_le x en} \<and>
              sorted_wrt date_less L" by blast
next
  assume "\<not> date_less today (mk_date 2024 1 5)"
  then show "validate_date_range today ''2024010120240105'' =
        Return [mk_date 2024 1 1, mk_date 2024 1 2, mk_date 2024 1 3, mk_date 2024 1 4,
          mk_date 2024 1 5]"
    by (rule validate_date_range_example)
qed

theorem validate_date_range_days_witness:
  "validate_date_range (mk_date 2026 11 4) ''2024010120240105'' =
     Return [mk_date 2024 1 1, mk_date 2024 1 2, mk_date 2024 1 3, mk_date 2024 1 4,
       mk_date 2024 1 5] \<and>
   (\<exists>L. validate_date_range (mk_date 2026 11 4) ''2024-02-28..2024-03-01'' = Return L \<and>
      set L = {x. valid_date x \<and> date_le (mk_date 2024 2 28) x \<and> date_le x (mk_date 2024 3 1)} \<and>
      sorted_wrt date_less L)"
proof
  have h: "\<not> date_less (mk_date 2026 11 4) (mk_date 2024 1 5)"
    by (simp add: date_less_def mk_date_def)
  from validate_date_range_days [of _ "mk_date 2026 11 4", THEN conjunct2, THEN conjunct2,
      THEN conjunct2, rule_format, OF h]
  show "validate_date_range (mk_date 2026 11 4) ''2024010120240105'' =
     Return [mk_date 2024 1 1, mk_date 2024 1 2, mk_date 2024 1 3, mk_date 2024 1 4,
       mk_date 2024 1 5]" .
next
  let ?s = "''2024-02-28..2024-03-01''"
  have c: "filter is_digit ?s = ''2024022820240301''"
    by (simp add: is_digit_def)
  have p: "length (filter is_digit ?s) = 16 \<and>
      strptime_ymd (take 8 (filter is_digit ?s)) = Some (mk_date 2024 2 28) \<and>
      strptime_ymd (drop 8 (filter is_digit ?s)) = Some (mk_date 2024 3 1)"
    unfolding c
    by (simp add: strptime_ymd_def is_digit_def digits_val_def digit_val_def valid_date_def
        mk_date_def days_in_month_def is_leap_def)
  have q: "\<not> date_less (mk_date 2024 3 1) (mk_date 2024 2 28) \<and>
      \<not> date_less (mk_date 2026 11 4) (mk_date 2024 3 1) \<and> 2003 \<le> year (mk_date 2024 2 28) \<and>
      year (mk_date 2026 11 4) < 9999"
    by (simp add: date_less_def mk_date_def)
  from validate_date_range_days [of ?s "mk_date 2026 11 4", THEN conjunct2, THEN conjunct2,
      THEN conjunct1, rule_format, OF p, THEN conjunct2, rule_format, OF q]
  show "\<exists>L. validate_date_range (mk_date 2026 11 4) ?s = Return L \<and>
      set L = {x. valid_date x \<and> date_le (mk_date 2024 2 28) x \<and> date_le x (mk_date 2024 3 1)} \<and>
      sorted_wrt date_less L" .
qed

end
